theory Spec2Isabelle
  imports Main "HOL-Library.Word" "HOL-Library.Multiset" "HOL-Library.AList"
begin

section \<open>Time values\<close>

text \<open>
  A Go \<^verbatim>\<open>time.Time\<close> is an instant; it is modelled as the (unbounded) number of
  nanoseconds on the time line. A \<^verbatim>\<open>time.Duration\<close> is an \<^verbatim>\<open>int64\<close> count of
  nanoseconds: a 64-bit word read with \<open>sint\<close>, whose multiplication wraps around.
  \<^verbatim>\<open>Time.After\<close> compares instants; \<^verbatim>\<open>Time.Sub\<close> returns the difference, and the
  maximum (or minimum) duration when the difference does not fit.
\<close>

type_synonym Time = int
type_synonym Duration = "64 word"

definition After :: "Time \<Rightarrow> Time \<Rightarrow> bool" where
  "After t u \<longleftrightarrow> u < t"

definition minDuration :: Duration where
  "minDuration = word_of_int (- (2 ^ 63))"

definition maxDuration :: Duration where
  "maxDuration = word_of_int (2 ^ 63 - 1)"

definition Sub :: "Time \<Rightarrow> Time \<Rightarrow> Duration" where
  "Sub t u =
     (let d = t - u
      in if d < - (2 ^ 63) then minDuration
         else if 2 ^ 63 - 1 < d then maxDuration
         else word_of_int d)"

definition Hour :: Duration where
  "Hour = 3600000000000"

section \<open>Data model\<close>

text \<open>\<^verbatim>\<open>retention.SnapshotFile\<close> and \<^verbatim>\<open>appconfig.RetentionPolicy\<close>. Go's \<^verbatim>\<open>int\<close> is
  64 bits wide on the build targets (amd64).\<close>

record SnapshotFile =
  Name :: string
  Path :: string
  Size :: "64 word"
  ModTime :: Time
  IsRemote :: bool

record RetentionPolicy =
  KeepLast :: "64 word"
  KeepLastDays :: "64 word"
  KeepLastHours :: "64 word"
  KeepLastWeeks :: "64 word"
  KeepLastMonths :: "64 word"
  KeepLastYears :: "64 word"
  RemoveLocal :: bool
  Timeout :: Duration

text \<open>A Go \<^verbatim>\<open>map[string]bool\<close>: reading a missing key yields \<^verbatim>\<open>false\<close>.\<close>

type_synonym verdict = "string \<rightharpoonup> bool"

definition lookup_bool :: "verdict \<Rightarrow> string \<Rightarrow> bool" where
  "lookup_bool m k = (case m k of None \<Rightarrow> False | Some b \<Rightarrow> b)"

section \<open>The library sort\<close>

text \<open>
  \<^verbatim>\<open>sort.Slice(x, less)\<close> belongs to Go's standard library. It rearranges the slice in
  place so that it is ordered by the comparison it is handed, and it is documented as not
  guaranteed to be stable. Its result is a function of the comparison and of the slice;
  that function is the parameter \<open>sortSlice\<close> of the model. \<open>sort_Slice_post\<close> is what
  the library promises of one call: the result is a rearrangement of the input in which
  no later element is ordered by \<open>lt\<close> before an earlier one.
\<close>

type_synonym slice_sort =
  "(SnapshotFile \<Rightarrow> SnapshotFile \<Rightarrow> bool) \<Rightarrow> SnapshotFile list \<Rightarrow> SnapshotFile list"

definition sort_Slice_post :: "('a \<Rightarrow> 'a \<Rightarrow> bool) \<Rightarrow> 'a list \<Rightarrow> 'a list \<Rightarrow> bool" where
  "sort_Slice_post lt xs ys \<longleftrightarrow> mset ys = mset xs \<and> sorted_wrt (\<lambda>a b. \<not> lt b a) ys"

text \<open>
  The library asks of the comparison that it is a strict weak ordering: nothing is less
  than itself, and both "less" and "not less" are transitive. \<open>sort_Slice_contract\<close> is
  the library's promise as a whole: every call with such a comparison meets
  \<open>sort_Slice_post\<close>. It says nothing of the program that calls the sort.
\<close>

definition strictWeakOrdering :: "('a \<Rightarrow> 'a \<Rightarrow> bool) \<Rightarrow> bool" where
  "strictWeakOrdering lt \<longleftrightarrow>
     (\<forall>a. \<not> lt a a)
   \<and> (\<forall>a b c. lt a b \<and> lt b c \<longrightarrow> lt a c)
   \<and> (\<forall>a b c. \<not> lt a b \<and> \<not> lt b c \<longrightarrow> \<not> lt a c)"

definition sort_Slice_contract :: "slice_sort \<Rightarrow> bool" where
  "sort_Slice_contract sortSlice \<longleftrightarrow>
     (\<forall>lt xs. strictWeakOrdering lt \<longrightarrow> sort_Slice_post lt xs (sortSlice lt xs))"

text \<open>The comparison closure of \<^verbatim>\<open>determineSnapshotsToKeep\<close>,
  \<^verbatim>\<open>snapshots[i].ModTime.After(snapshots[j].ModTime)\<close>: newest first.\<close>

definition newer :: "SnapshotFile \<Rightarrow> SnapshotFile \<Rightarrow> bool" where
  "newer a b \<longleftrightarrow> After (ModTime a) (ModTime b)"

text \<open>
  Two sorts that meet the contract, used to run the model on concrete slices. Both are
  insertion sorts by the comparison they are handed: \<open>sortStable\<close> leaves elements that
  the comparison does not separate in their input order, \<open>sortTiesReversed\<close> reverses
  them.
\<close>

fun insertBy :: "('a \<Rightarrow> 'a \<Rightarrow> bool) \<Rightarrow> 'a \<Rightarrow> 'a list \<Rightarrow> 'a list" where
  "insertBy lt x [] = [x]"
| "insertBy lt x (y # ys) = (if lt y x then y # insertBy lt x ys else x # y # ys)"

fun sortStable :: "('a \<Rightarrow> 'a \<Rightarrow> bool) \<Rightarrow> 'a list \<Rightarrow> 'a list" where
  "sortStable lt [] = []"
| "sortStable lt (x # xs) = insertBy lt x (sortStable lt xs)"

definition sortTiesReversed :: "('a \<Rightarrow> 'a \<Rightarrow> bool) \<Rightarrow> 'a list \<Rightarrow> 'a list" where
  "sortTiesReversed lt xs = rev (sortStable (\<lambda>a b. lt b a) xs)"

section \<open>The retention evaluator\<close>

text \<open>The loop \<^verbatim>\<open>for i, snapshot := range snapshots { if i < KeepLast { ... } }\<close>,
  with the index \<open>i\<close> of the head of the remaining slice.\<close>

fun keepLastLoop :: "64 word \<Rightarrow> nat \<Rightarrow> SnapshotFile list \<Rightarrow> verdict \<Rightarrow> verdict" where
  "keepLastLoop k i [] toKeep = toKeep"
| "keepLastLoop k i (snapshot # rest) toKeep =
     keepLastLoop k (Suc i) rest
       (if int i < sint k then toKeep(Name snapshot \<mapsto> True) else toKeep)"

text \<open>The body of the second loop: five independent window tests on one snapshot.\<close>

definition keepWithin :: "RetentionPolicy \<Rightarrow> Time \<Rightarrow> SnapshotFile \<Rightarrow> verdict \<Rightarrow> verdict" where
  "keepWithin policy now snapshot toKeep =
     (let age = Sub now (ModTime snapshot);
          k1 = (if 0 < sint (KeepLastHours policy)
                   \<and> sint age \<le> sint (KeepLastHours policy * Hour)
                then toKeep(Name snapshot \<mapsto> True) else toKeep);
          k2 = (if 0 < sint (KeepLastDays policy)
                   \<and> sint age \<le> sint (KeepLastDays policy * 24 * Hour)
                then k1(Name snapshot \<mapsto> True) else k1);
          k3 = (if 0 < sint (KeepLastWeeks policy)
                   \<and> sint age \<le> sint (KeepLastWeeks policy * 7 * 24 * Hour)
                then k2(Name snapshot \<mapsto> True) else k2);
          k4 = (if 0 < sint (KeepLastMonths policy)
                   \<and> sint age \<le> sint (KeepLastMonths policy * 30 * 24 * Hour)
                then k3(Name snapshot \<mapsto> True) else k3);
          k5 = (if 0 < sint (KeepLastYears policy)
                   \<and> sint age \<le> sint (KeepLastYears policy * 365 * 24 * Hour)
                then k4(Name snapshot \<mapsto> True) else k4)
      in k5)"

fun keepWithinLoop :: "RetentionPolicy \<Rightarrow> Time \<Rightarrow> SnapshotFile list \<Rightarrow> verdict \<Rightarrow> verdict" where
  "keepWithinLoop policy now [] toKeep = toKeep"
| "keepWithinLoop policy now (snapshot # rest) toKeep =
     keepWithinLoop policy now rest (keepWithin policy now snapshot toKeep)"

text \<open>
  \<^verbatim>\<open>determineSnapshotsToKeep\<close>. The current instant (\<^verbatim>\<open>time.Now()\<close>) is the parameter
  \<open>now\<close>. The sort works in place on the caller's slice, so the function returns the slice
  as the call leaves it together with the verdict map.
\<close>

definition determineSnapshotsToKeep ::
  "slice_sort \<Rightarrow> RetentionPolicy \<Rightarrow> Time
     \<Rightarrow> SnapshotFile list \<Rightarrow> SnapshotFile list \<times> verdict" where
  "determineSnapshotsToKeep sortSlice policy now snapshots =
     (let sorted = sortSlice newer snapshots;
          toKeep = (if 0 < sint (KeepLast policy)
                    then keepLastLoop (KeepLast policy) 0 sorted Map.empty
                    else Map.empty)
      in (sorted, keepWithinLoop policy now sorted toKeep))"

definition GetRetentionStatus ::
  "slice_sort \<Rightarrow> RetentionPolicy \<Rightarrow> Time
     \<Rightarrow> SnapshotFile list \<Rightarrow> SnapshotFile list \<times> verdict" where
  "GetRetentionStatus sortSlice policy now snapshots =
     determineSnapshotsToKeep sortSlice policy now snapshots"

text \<open>\<^verbatim>\<open>findSnapshotsToDelete\<close>: the records whose name the verdict does not keep.\<close>

fun findSnapshotsToDelete :: "SnapshotFile list \<Rightarrow> verdict \<Rightarrow> SnapshotFile list" where
  "findSnapshotsToDelete [] toKeep = []"
| "findSnapshotsToDelete (snapshot # rest) toKeep =
     (if \<not> lookup_bool toKeep (Name snapshot)
      then snapshot # findSnapshotsToDelete rest toKeep
      else findSnapshotsToDelete rest toKeep)"

text \<open>The five window tests of the source, as one predicate on a snapshot.\<close>

definition withinWindow :: "RetentionPolicy \<Rightarrow> Time \<Rightarrow> SnapshotFile \<Rightarrow> bool" where
  "withinWindow policy now snapshot \<longleftrightarrow>
     (let age = Sub now (ModTime snapshot)
      in (0 < sint (KeepLastHours policy) \<and> sint age \<le> sint (KeepLastHours policy * Hour))
       \<or> (0 < sint (KeepLastDays policy) \<and> sint age \<le> sint (KeepLastDays policy * 24 * Hour))
       \<or> (0 < sint (KeepLastWeeks policy) \<and> sint age \<le> sint (KeepLastWeeks policy * 7 * 24 * Hour))
       \<or> (0 < sint (KeepLastMonths policy) \<and> sint age \<le> sint (KeepLastMonths policy * 30 * 24 * Hour))
       \<or> (0 < sint (KeepLastYears policy) \<and> sint age \<le> sint (KeepLastYears policy * 365 * 24 * Hour)))"

section \<open>The reconciler\<close>

text \<open>
  The Go map \<^verbatim>\<open>snapshotMap\<close> of \<^verbatim>\<open>createUnifiedSnapshotList\<close> is an association list
  with one entry per key: \<open>map_of\<close> reads it, \<open>AList.update\<close> is the assignment
  \<^verbatim>\<open>snapshotMap[k] = v\<close>. The order in which \<^verbatim>\<open>range\<close> visits a Go map is chosen by
  the runtime; it is the parameter \<open>rng\<close>, and \<open>range_post\<close> is what is known of it:
  every value of the map is visited once.
\<close>

type_synonym snapshot_map = "(string \<times> SnapshotFile) list"

definition range_post :: "snapshot_map \<Rightarrow> SnapshotFile list \<Rightarrow> bool" where
  "range_post m vs \<longleftrightarrow> mset vs = mset (map snd m)"

fun addLocal :: "SnapshotFile list \<Rightarrow> snapshot_map \<Rightarrow> snapshot_map" where
  "addLocal [] snapshotMap = snapshotMap"
| "addLocal (snapshot # rest) snapshotMap =
     addLocal rest (AList.update (Name snapshot) snapshot snapshotMap)"

definition addS3Snapshot :: "SnapshotFile \<Rightarrow> snapshot_map \<Rightarrow> snapshot_map" where
  "addS3Snapshot s3Snapshot snapshotMap =
     (case map_of snapshotMap (Name s3Snapshot) of
        Some existing \<Rightarrow>
          if After (ModTime s3Snapshot) (ModTime existing)
          then AList.update (Name s3Snapshot) s3Snapshot snapshotMap
          else snapshotMap
      | None \<Rightarrow> AList.update (Name s3Snapshot) s3Snapshot snapshotMap)"

fun addS3 :: "SnapshotFile list \<Rightarrow> snapshot_map \<Rightarrow> snapshot_map" where
  "addS3 [] snapshotMap = snapshotMap"
| "addS3 (s3Snapshot # rest) snapshotMap = addS3 rest (addS3Snapshot s3Snapshot snapshotMap)"

text \<open>The map as \<^verbatim>\<open>createUnifiedSnapshotList\<close> has it after both loops.\<close>

definition unifiedSnapshotMap :: "SnapshotFile list \<Rightarrow> SnapshotFile list \<Rightarrow> snapshot_map" where
  "unifiedSnapshotMap localSnapshots s3Snapshots = addS3 s3Snapshots (addLocal localSnapshots [])"

definition createUnifiedSnapshotList ::
  "(snapshot_map \<Rightarrow> SnapshotFile list) \<Rightarrow> SnapshotFile list \<Rightarrow> SnapshotFile list
     \<Rightarrow> SnapshotFile list" where
  "createUnifiedSnapshotList rng localSnapshots s3Snapshots =
     rng (unifiedSnapshotMap localSnapshots s3Snapshots)"

text \<open>\<^verbatim>\<open>GetUnifiedRetentionStatus\<close>: the evaluator sorts the fresh unified slice, which is
  dropped; the two listings are not touched.\<close>

definition GetUnifiedRetentionStatus ::
  "slice_sort \<Rightarrow> (snapshot_map \<Rightarrow> SnapshotFile list)
     \<Rightarrow> RetentionPolicy \<Rightarrow> Time \<Rightarrow> SnapshotFile list \<Rightarrow> SnapshotFile list \<Rightarrow> verdict" where
  "GetUnifiedRetentionStatus sortSlice rng policy now localSnapshots s3Snapshots =
     snd (determineSnapshotsToKeep sortSlice policy now
            (createUnifiedSnapshotList rng localSnapshots s3Snapshots))"

text \<open>
  Errors are their messages. \<^verbatim>\<open>applyRetentionToLocal\<close> returns the two counters; the model
  adds the paths handed to \<^verbatim>\<open>os.Remove\<close>, in order. \<^verbatim>\<open>applyRetentionToS3\<close> likewise, with
  the keys handed to \<^verbatim>\<open>DeleteMultiple\<close> (none when the call is not made). Whether the store
  then carries a deletion out is outside the program.
\<close>

type_synonym error = string

fun applyLocalLoop ::
  "verdict \<Rightarrow> bool \<Rightarrow> SnapshotFile list \<Rightarrow> nat \<times> nat \<times> string list \<Rightarrow> nat \<times> nat \<times> string list" where
  "applyLocalLoop retentionDecisions dryRun [] acc = acc"
| "applyLocalLoop retentionDecisions dryRun (snapshot # rest) (kept, deleted, removed) =
     applyLocalLoop retentionDecisions dryRun rest
       (if lookup_bool retentionDecisions (Name snapshot) then (kept + 1, deleted, removed)
        else if dryRun then (kept, deleted + 1, removed)
        else (kept, deleted + 1, removed @ [Path snapshot]))"

definition applyRetentionToLocal ::
  "SnapshotFile list \<Rightarrow> verdict \<Rightarrow> bool \<Rightarrow> nat \<times> nat \<times> string list" where
  "applyRetentionToLocal snapshots retentionDecisions dryRun =
     applyLocalLoop retentionDecisions dryRun snapshots (0, 0, [])"

fun applyS3Loop ::
  "verdict \<Rightarrow> SnapshotFile list \<Rightarrow> nat \<times> nat \<times> string list \<Rightarrow> nat \<times> nat \<times> string list" where
  "applyS3Loop retentionDecisions [] acc = acc"
| "applyS3Loop retentionDecisions (snapshot # rest) (kept, deleted, keysToDelete) =
     applyS3Loop retentionDecisions rest
       (if lookup_bool retentionDecisions (Name snapshot) then (kept + 1, deleted, keysToDelete)
        else (kept, deleted + 1, keysToDelete @ [Path snapshot]))"

definition applyRetentionToS3 ::
  "SnapshotFile list \<Rightarrow> verdict \<Rightarrow> bool \<Rightarrow> nat \<times> nat \<times> string list" where
  "applyRetentionToS3 snapshots retentionDecisions dryRun =
     (case applyS3Loop retentionDecisions snapshots (0, 0, []) of
        (kept, deleted, keysToDelete) \<Rightarrow>
          (kept, deleted, if 0 < length keysToDelete \<and> \<not> dryRun then keysToDelete else []))"

record applied =
  localRemoved :: "string list"
  s3Removed :: "string list"
  localKept :: nat
  localDeleted :: nat
  s3Kept :: nat
  s3Deleted :: nat

text \<open>
  \<^verbatim>\<open>ApplyUnified\<close>. \<open>localListing\<close> is the outcome of \<^verbatim>\<open>GetLocalSnapshots\<close>;
  \<open>s3Client\<close> is \<open>None\<close> for a nil client and otherwise holds the outcome of
  \<^verbatim>\<open>GetS3Snapshots\<close>.
\<close>

definition ApplyUnified ::
  "slice_sort \<Rightarrow> (snapshot_map \<Rightarrow> SnapshotFile list)
     \<Rightarrow> RetentionPolicy \<Rightarrow> Time \<Rightarrow> error + SnapshotFile list
     \<Rightarrow> (error + SnapshotFile list) option \<Rightarrow> bool \<Rightarrow> error + applied" where
  "ApplyUnified sortSlice rng policy now localListing s3Client dryRun =
     (case localListing of
        Inl err \<Rightarrow> Inl (''failed to get local snapshots: '' @ err)
      | Inr localSnapshots \<Rightarrow>
          (case (case s3Client of None \<Rightarrow> Inr [] | Some s3Listing \<Rightarrow> s3Listing) of
             Inl err \<Rightarrow> Inl (''failed to get S3 snapshots: '' @ err)
           | Inr s3Snapshots \<Rightarrow>
               (let retentionDecisions =
                      GetUnifiedRetentionStatus sortSlice rng policy now localSnapshots s3Snapshots;
                    (lk, ld, removed) = applyRetentionToLocal localSnapshots retentionDecisions dryRun;
                    (sk, sd, keys) =
                      (if s3Client \<noteq> None
                       then applyRetentionToS3 s3Snapshots retentionDecisions dryRun
                       else (0, 0, []))
                in Inr \<lparr>localRemoved = removed, s3Removed = keys, localKept = lk,
                        localDeleted = ld, s3Kept = sk, s3Deleted = sd\<rparr>)))"

section \<open>The gap finder\<close>

fun s3NamesLoop :: "SnapshotFile list \<Rightarrow> verdict \<Rightarrow> verdict" where
  "s3NamesLoop [] s3SnapshotNames = s3SnapshotNames"
| "s3NamesLoop (s3Snap # rest) s3SnapshotNames =
     s3NamesLoop rest (s3SnapshotNames(Name s3Snap \<mapsto> True))"

fun toUploadLoop :: "verdict \<Rightarrow> verdict \<Rightarrow> SnapshotFile list \<Rightarrow> SnapshotFile list \<Rightarrow> SnapshotFile list" where
  "toUploadLoop retentionDecisions s3SnapshotNames [] toUpload = toUpload"
| "toUploadLoop retentionDecisions s3SnapshotNames (localSnap # rest) toUpload =
     toUploadLoop retentionDecisions s3SnapshotNames rest
       (if lookup_bool retentionDecisions (Name localSnap)
           \<and> \<not> lookup_bool s3SnapshotNames (Name localSnap)
        then toUpload @ [localSnap] else toUpload)"

text \<open>
  \<^verbatim>\<open>uploadMissingSnapshots\<close>, up to the list \<^verbatim>\<open>toUpload\<close> whose members are then handed
  to \<^verbatim>\<open>Upload\<close> one by one. \<open>clientErr\<close> is the error of \<^verbatim>\<open>GetS3Client\<close>, if any. Without
  the unified flag the evaluator sorts \<^verbatim>\<open>localSnapshots\<close> itself, and the selection loop
  runs over the slice as the sort left it.
\<close>

definition uploadMissingSnapshots ::
  "slice_sort \<Rightarrow> (snapshot_map \<Rightarrow> SnapshotFile list)
     \<Rightarrow> RetentionPolicy \<Rightarrow> Time \<Rightarrow> bool \<Rightarrow> error option \<Rightarrow> error + SnapshotFile list
     \<Rightarrow> error + SnapshotFile list \<Rightarrow> error + SnapshotFile list" where
  "uploadMissingSnapshots sortSlice rng policy now unified clientErr localListing s3Listing =
     (case clientErr of
        Some err \<Rightarrow> Inl err
      | None \<Rightarrow>
          (case localListing of
             Inl err \<Rightarrow> Inl (''failed to get local snapshots: '' @ err)
           | Inr localSnapshots \<Rightarrow>
               (case s3Listing of
                  Inl err \<Rightarrow> Inl (''failed to get S3 snapshots: '' @ err)
                | Inr s3Snapshots \<Rightarrow>
                    (let s3SnapshotNames = s3NamesLoop s3Snapshots Map.empty;
                         (localSnapshots', retentionDecisions) =
                           (if unified
                            then (localSnapshots,
                                  GetUnifiedRetentionStatus sortSlice rng policy now localSnapshots s3Snapshots)
                            else GetRetentionStatus sortSlice policy now localSnapshots)
                     in Inr (toUploadLoop retentionDecisions s3SnapshotNames localSnapshots' [])))))"

section \<open>Compression-aware name resolution\<close>

text \<open>\<^verbatim>\<open>strings.HasSuffix\<close> on byte strings.\<close>

definition HasSuffix :: "string \<Rightarrow> string \<Rightarrow> bool" where
  "HasSuffix s suffix \<longleftrightarrow>
     length suffix \<le> length s \<and> drop (length s - length suffix) s = suffix"

definition compressionExts :: "(string \<times> string) list" where
  "compressionExts =
     [(''none'', ''''), (''gzip'', ''.gz''), (''bzip2'', ''.bz2''), (''lz4'', ''.lz4''),
      (''zstd'', ''.zst'')]"

definition GetCompressionExt :: "string \<Rightarrow> string" where
  "GetCompressionExt algorithm =
     (case map_of compressionExts algorithm of None \<Rightarrow> '''' | Some ext \<Rightarrow> ext)"

text \<open>The loop of \<^verbatim>\<open>GetCompressionAlgorithmFromExt\<close> over the table in a given visiting
  order; the function itself visits it in the order of the declaration (the order does not
  change the result, see \<open>algFromExtLoop_order\<close>).\<close>

fun algFromExtLoop :: "(string \<times> string) list \<Rightarrow> string \<Rightarrow> string" where
  "algFromExtLoop [] filename = ''none''"
| "algFromExtLoop ((alg, ext) # rest) filename =
     (if ext \<noteq> '''' \<and> HasSuffix filename ext then alg else algFromExtLoop rest filename)"

definition GetCompressionAlgorithmFromExt :: "string \<Rightarrow> string" where
  "GetCompressionAlgorithmFromExt filename = algFromExtLoop compressionExts filename"

definition IsCompressed :: "string \<Rightarrow> bool" where
  "IsCompressed filename \<longleftrightarrow> GetCompressionAlgorithmFromExt filename \<noteq> ''none''"

fun candidatesLoop :: "string \<Rightarrow> string list \<Rightarrow> string list \<Rightarrow> string list" where
  "candidatesLoop base [] candidates = candidates"
| "candidatesLoop base (alg # rest) candidates =
     candidatesLoop base rest
       (let ext = GetCompressionExt alg
        in if ext \<noteq> '''' then candidates @ [base @ ext] else candidates)"

definition ResolveCompressedFilename :: "string \<Rightarrow> string list" where
  "ResolveCompressedFilename filename =
     (if IsCompressed filename then [filename]
      else if HasSuffix filename ''.db''
      then candidatesLoop filename [''zstd'', ''gzip'', ''lz4'', ''bzip2''] [] @ [filename]
      else [filename])"

text \<open>The default of the \<^verbatim>\<open>Compression\<close> option of the snapshot command (its \<^verbatim>\<open>kong\<close>
  tag).\<close>

definition defaultCompression :: string where
  "defaultCompression = ''zstd''"

text \<open>
  \<^verbatim>\<open>ResolveCompressedKey\<close>. The store is reached through \<^verbatim>\<open>c.Exists\<close> only; its outcome
  for a candidate key is the parameter \<open>existsFn\<close>. The result is Go's triple
  (key, found, error).
\<close>

fun resolveLoop ::
  "(string \<Rightarrow> error + bool) \<Rightarrow> string \<Rightarrow> string list \<Rightarrow> string \<times> bool \<times> error option" where
  "resolveLoop existsFn key [] = (key, False, None)"
| "resolveLoop existsFn key (candidate # rest) =
     (case existsFn candidate of
        Inl err \<Rightarrow>
          ('''', False, Some (''failed to check existence of '' @ candidate @ '': '' @ err))
      | Inr found \<Rightarrow>
          if found then (candidate, True, None) else resolveLoop existsFn key rest)"

definition ResolveCompressedKey ::
  "(string \<Rightarrow> error + bool) \<Rightarrow> string \<Rightarrow> string \<times> bool \<times> error option" where
  "ResolveCompressedKey existsFn key = resolveLoop existsFn key (ResolveCompressedFilename key)"

text \<open>
  \<^verbatim>\<open>downloadSnapshot\<close>. \<open>clientErr\<close> is the error of \<^verbatim>\<open>GetS3Client\<close>, if any; \<open>fetch\<close>
  stands for the rest of the function after the key is resolved (download, check of the
  downloaded file), which yields the local path or an error.
\<close>

definition downloadSnapshot ::
  "error option \<Rightarrow> (string \<Rightarrow> error + bool) \<Rightarrow> (string \<Rightarrow> error + string) \<Rightarrow> string
     \<Rightarrow> error + string" where
  "downloadSnapshot clientErr existsFn fetch s3Key =
     (case clientErr of
        Some err \<Rightarrow> Inl err
      | None \<Rightarrow>
          (case ResolveCompressedKey existsFn s3Key of
             (resolvedKey, found, err) \<Rightarrow>
               (case err of
                  Some e \<Rightarrow> Inl (''failed to resolve compressed snapshot: '' @ e)
                | None \<Rightarrow>
                    if \<not> found
                    then Inl (''snapshot not found in S3: '' @ s3Key
                              @ '' (checked compressed and uncompressed versions)'')
                    else fetch resolvedKey)))"

section \<open>Sample data\<close>

text \<open>Concrete snapshots and policies on which the model is run. Instants are in
  nanoseconds; \<open>hourNs\<close> is one hour.\<close>

definition hourNs :: int where
  "hourNs = 3600000000000"

definition localSnap :: "string \<Rightarrow> Time \<Rightarrow> SnapshotFile" where
  "localSnap n t =
     \<lparr>Name = n, Path = ''/var/lib/etcd/snapshots/'' @ n, Size = 1024, ModTime = t,
      IsRemote = False\<rparr>"

definition s3Snap :: "string \<Rightarrow> Time \<Rightarrow> SnapshotFile" where
  "s3Snap n t = \<lparr>Name = n, Path = n, Size = 1024, ModTime = t, IsRemote = True\<rparr>"

definition policyOf ::
  "64 word \<Rightarrow> 64 word \<Rightarrow> 64 word \<Rightarrow> 64 word \<Rightarrow> 64 word \<Rightarrow> 64 word \<Rightarrow> RetentionPolicy" where
  "policyOf n hours days weeks months years =
     \<lparr>KeepLast = n, KeepLastDays = days, KeepLastHours = hours, KeepLastWeeks = weeks,
      KeepLastMonths = months, KeepLastYears = years, RemoveLocal = False,
      Timeout = 300000000000\<rparr>"

definition zeroPolicy :: RetentionPolicy where
  "zeroPolicy = policyOf 0 0 (- 1) 0 0 0"

text \<open>Thirteen snapshots, two of which (\<open>s01\<close> before \<open>s02\<close>) carry the same instant.\<close>

definition tieSample :: "SnapshotFile list" where
  "tieSample =
     [localSnap ''s00'' (99 * hourNs), localSnap ''s01'' (90 * hourNs),
      localSnap ''s02'' (90 * hourNs), localSnap ''s03'' (98 * hourNs),
      localSnap ''s04'' (97 * hourNs), localSnap ''s05'' (96 * hourNs),
      localSnap ''s06'' (95 * hourNs), localSnap ''s07'' (94 * hourNs),
      localSnap ''s08'' (93 * hourNs), localSnap ''s09'' (92 * hourNs),
      localSnap ''s10'' (91 * hourNs), localSnap ''s11'' (100 * hourNs),
      localSnap ''s12'' (101 * hourNs)]"

text \<open>Two objects of the remote store under different key prefixes and with the same base
  name, as \<^verbatim>\<open>GetS3Snapshots\<close> records them (\<^verbatim>\<open>Name = filepath.Base(obj.Key)\<close>).\<close>

definition dupOld :: SnapshotFile where
  "dupOld = \<lparr>Name = ''snap.db'', Path = ''2024/snap.db'', Size = 1024, ModTime = hourNs,
             IsRemote = True\<rparr>"

definition dupNew :: SnapshotFile where
  "dupNew = \<lparr>Name = ''snap.db'', Path = ''2025/snap.db'', Size = 1024,
             ModTime = 999 * hourNs, IsRemote = True\<rparr>"

section \<open>The verdict in the specification's words\<close>

text \<open>
  The two rules as the specification states them, over the integers: a record is among
  the first \<^verbatim>\<open>KeepLast\<close> records of the ordered slice, and the age of a record
  (\<open>now - ModTime\<close>) is at most \<open>u\<close> units for an enabled window \<open>u > 0\<close>, with the units
  hour, day = 24 h, week = 7 * 24 h, month = 30 * 24 h, year = 365 * 24 h.
\<close>

definition amongFirst :: "64 word \<Rightarrow> SnapshotFile list \<Rightarrow> SnapshotFile \<Rightarrow> bool" where
  "amongFirst k ordered s \<longleftrightarrow> 0 < sint k \<and> s \<in> set (take (nat (sint k)) ordered)"

definition ageWithin :: "RetentionPolicy \<Rightarrow> Time \<Rightarrow> SnapshotFile \<Rightarrow> bool" where
  "ageWithin policy now s \<longleftrightarrow>
     (0 < sint (KeepLastHours policy)
        \<and> now - ModTime s \<le> sint (KeepLastHours policy) * hourNs)
   \<or> (0 < sint (KeepLastDays policy)
        \<and> now - ModTime s \<le> sint (KeepLastDays policy) * (24 * hourNs))
   \<or> (0 < sint (KeepLastWeeks policy)
        \<and> now - ModTime s \<le> sint (KeepLastWeeks policy) * (7 * 24 * hourNs))
   \<or> (0 < sint (KeepLastMonths policy)
        \<and> now - ModTime s \<le> sint (KeepLastMonths policy) * (30 * 24 * hourNs))
   \<or> (0 < sint (KeepLastYears policy)
        \<and> now - ModTime s \<le> sint (KeepLastYears policy) * (365 * 24 * hourNs))"

text \<open>The window thresholds whose product with the unit fits a \<^verbatim>\<open>time.Duration\<close>: the
  bounds are the quotients of \<open>2 ^ 63 - 1\<close> by the units.\<close>

definition windowsInRange :: "RetentionPolicy \<Rightarrow> bool" where
  "windowsInRange policy \<longleftrightarrow>
     sint (KeepLastHours policy) \<le> 2562047 \<and> sint (KeepLastDays policy) \<le> 106751
   \<and> sint (KeepLastWeeks policy) \<le> 15250 \<and> sint (KeepLastMonths policy) \<le> 3558
   \<and> sint (KeepLastYears policy) \<le> 292"

definition windowsDisabled :: "RetentionPolicy \<Rightarrow> bool" where
  "windowsDisabled policy \<longleftrightarrow>
     sint (KeepLastHours policy) \<le> 0 \<and> sint (KeepLastDays policy) \<le> 0
   \<and> sint (KeepLastWeeks policy) \<le> 0 \<and> sint (KeepLastMonths policy) \<le> 0
   \<and> sint (KeepLastYears policy) \<le> 0"

text \<open>A store that holds exactly the given keys and answers every existence check.\<close>

definition storeOf :: "string list \<Rightarrow> string \<Rightarrow> error + bool" where
  "storeOf keys k = Inr (k \<in> set keys)"

text \<open>A store without keys whose existence check fails on one key.\<close>

definition failingOn :: "string \<Rightarrow> error \<Rightarrow> string \<Rightarrow> error + bool" where
  "failingOn bad err k = (if k = bad then Inl err else Inr False)"

section \<open>Properties of the evaluator loops\<close>

lemma lookup_bool_empty [simp]: "lookup_bool Map.empty n = False"
  by (simp add: lookup_bool_def)

lemma lookup_bool_upd [simp]:
  "lookup_bool (m(k \<mapsto> True)) n \<longleftrightarrow> k = n \<or> lookup_bool m n"
  by (auto simp: lookup_bool_def)

lemma keepLastLoop_lookup:
  "lookup_bool (keepLastLoop k i ss m) n \<longleftrightarrow>
     lookup_bool m n \<or> (\<exists>j < length ss. int (i + j) < sint k \<and> Name (ss ! j) = n)"
proof (induction ss arbitrary: i m)
  case Nil
  then show ?case by simp
next
  case (Cons s ss)
  have split: "(\<exists>j < length (s # ss). int (i + j) < sint k \<and> Name ((s # ss) ! j) = n) \<longleftrightarrow>
      (int i < sint k \<and> Name s = n) \<or> (\<exists>j < length ss. int (Suc i + j) < sint k \<and> Name (ss ! j) = n)"
    (is "?L \<longleftrightarrow> ?A \<or> ?B")
  proof
    assume ?L
    then obtain j where j: "j < length (s # ss)" "int (i + j) < sint k" "Name ((s # ss) ! j) = n"
      by blast
    show "?A \<or> ?B"
    proof (cases j)
      case 0
      with j show ?thesis by simp
    next
      case (Suc j')
      with j have "j' < length ss \<and> int (Suc i + j') < sint k \<and> Name (ss ! j') = n" by simp
      then show ?thesis by blast
    qed
  next
    assume "?A \<or> ?B"
    then show ?L
    proof
      assume ?A
      then have "0 < length (s # ss) \<and> int (i + 0) < sint k \<and> Name ((s # ss) ! 0) = n" by simp
      then show ?L by blast
    next
      assume ?B
      then obtain j where "j < length ss" "int (Suc i + j) < sint k" "Name (ss ! j) = n" by blast
      then have "Suc j < length (s # ss) \<and> int (i + Suc j) < sint k \<and> Name ((s # ss) ! Suc j) = n"
        by simp
      then show ?L by blast
    qed
  qed
  show ?case
    unfolding split by (simp add: Cons.IH) blast
qed

lemma keepWithin_lookup:
  "lookup_bool (keepWithin policy now s m) n \<longleftrightarrow>
     lookup_bool m n \<or> (Name s = n \<and> withinWindow policy now s)"
  by (auto simp: keepWithin_def withinWindow_def Let_def)

lemma keepWithinLoop_lookup:
  "lookup_bool (keepWithinLoop policy now ss m) n \<longleftrightarrow>
     lookup_bool m n \<or> (\<exists>s \<in> set ss. Name s = n \<and> withinWindow policy now s)"
  by (induction ss arbitrary: m) (auto simp: keepWithin_lookup)

lemma determine_lookup:
  "lookup_bool (snd (determineSnapshotsToKeep sortSlice policy now snapshots)) n \<longleftrightarrow>
     (0 < sint (KeepLast policy)
        \<and> (\<exists>j < length (sortSlice newer snapshots). int j < sint (KeepLast policy) \<and> Name (sortSlice newer snapshots ! j) = n))
     \<or> (\<exists>s \<in> set (sortSlice newer snapshots). Name s = n \<and> withinWindow policy now s)"
  by (simp add: determineSnapshotsToKeep_def Let_def keepWithinLoop_lookup keepLastLoop_lookup)

lemma findSnapshotsToDelete_filter:
  "findSnapshotsToDelete snapshots toKeep = filter (\<lambda>s. \<not> lookup_bool toKeep (Name s)) snapshots"
  by (induction snapshots) auto

section \<open>The all-disabled policy\<close>

lemma keepWithinLoop_disabled:
  assumes "\<And>s. \<not> withinWindow policy now s"
  shows "keepWithinLoop policy now ss m = m"
proof (induction ss arbitrary: m)
  case Nil
  show ?case by simp
next
  case (Cons s ss)
  have "keepWithin policy now s m = m"
    using assms [of s] by (auto simp: keepWithin_def withinWindow_def Let_def)
  then show ?case by (simp add: Cons.IH)
qed

text \<open>
  C1. When \<^verbatim>\<open>KeepLast\<close> and the five window thresholds are all zero or negative, the
  evaluator returns the empty verdict map for any slice of snapshots: no name is marked
  keep, the verdict read for every record is "delete", and \<^verbatim>\<open>findSnapshotsToDelete\<close>
  returns every record of the slice.
\<close>

theorem all_disabled_policy_purges_all:
  assumes "sint (KeepLast policy) \<le> 0"
    and "sint (KeepLastHours policy) \<le> 0"
    and "sint (KeepLastDays policy) \<le> 0"
    and "sint (KeepLastWeeks policy) \<le> 0"
    and "sint (KeepLastMonths policy) \<le> 0"
    and "sint (KeepLastYears policy) \<le> 0"
  shows "snd (determineSnapshotsToKeep sortSlice policy now snapshots) = Map.empty
    \<and> (\<forall>s \<in> set snapshots.
          \<not> lookup_bool (snd (GetRetentionStatus sortSlice policy now snapshots)) (Name s))
    \<and> findSnapshotsToDelete (fst (determineSnapshotsToKeep sortSlice policy now snapshots))
          (snd (determineSnapshotsToKeep sortSlice policy now snapshots))
        = fst (determineSnapshotsToKeep sortSlice policy now snapshots)"
proof -
  have no_window: "\<not> withinWindow policy now s" for s
    using assms by (simp add: withinWindow_def Let_def)
  have empty: "snd (determineSnapshotsToKeep sortSlice policy now snapshots) = Map.empty"
    using assms(1) by (simp add: determineSnapshotsToKeep_def Let_def keepWithinLoop_disabled [OF no_window])
  show ?thesis
    by (simp add: empty GetRetentionStatus_def findSnapshotsToDelete_filter)
qed

theorem all_disabled_policy_purges_all_witness:
  "sint (KeepLast zeroPolicy) \<le> 0 \<and> sint (KeepLastHours zeroPolicy) \<le> 0
   \<and> sint (KeepLastDays zeroPolicy) \<le> 0 \<and> sint (KeepLastWeeks zeroPolicy) \<le> 0
   \<and> sint (KeepLastMonths zeroPolicy) \<le> 0 \<and> sint (KeepLastYears zeroPolicy) \<le> 0
   \<and> snd (determineSnapshotsToKeep sortStable zeroPolicy (5 * hourNs)
            [localSnap ''a.db'' hourNs, localSnap ''b.db'' (4 * hourNs)]) = Map.empty
   \<and> \<not> lookup_bool (snd (GetRetentionStatus sortStable zeroPolicy (5 * hourNs)
            [localSnap ''a.db'' hourNs, localSnap ''b.db'' (4 * hourNs)])) ''a.db''
   \<and> \<not> lookup_bool (snd (GetRetentionStatus sortStable zeroPolicy (5 * hourNs)
            [localSnap ''a.db'' hourNs, localSnap ''b.db'' (4 * hourNs)])) ''b.db''"
  using all_disabled_policy_purges_all [of zeroPolicy sortStable "5 * hourNs"
      "[localSnap ''a.db'' hourNs, localSnap ''b.db'' (4 * hourNs)]"]
  by (simp add: zeroPolicy_def policyOf_def localSnap_def)

section \<open>What the sort leaves behind\<close>

lemma newer_iff: "\<not> newer b a \<longleftrightarrow> ModTime b \<le> ModTime a"
  by (auto simp: newer_def After_def)

lemma sort_Slice_post_newer:
  "sort_Slice_post newer xs ys \<longleftrightarrow>
     mset ys = mset xs \<and> sorted_wrt (\<lambda>a b. ModTime b \<le> ModTime a) ys"
  by (simp add: sort_Slice_post_def newer_iff)

text \<open>The comparison of the evaluator is a strict weak ordering.\<close>

lemma newer_strictWeakOrdering: "strictWeakOrdering newer"
  by (auto simp: strictWeakOrdering_def newer_def After_def)

lemma strictWeakOrdering_flip:
  "strictWeakOrdering lt \<Longrightarrow> strictWeakOrdering (\<lambda>a b. lt b a)"
  unfolding strictWeakOrdering_def by blast

lemma mset_insertBy: "mset (insertBy lt x ys) = add_mset x (mset ys)"
  by (induction ys) simp_all

lemma set_insertBy: "set (insertBy lt x ys) = insert x (set ys)"
  by (induction ys) auto

lemma sorted_insertBy:
  assumes "strictWeakOrdering lt" and "sorted_wrt (\<lambda>a b. \<not> lt b a) ys"
  shows "sorted_wrt (\<lambda>a b. \<not> lt b a) (insertBy lt x ys)"
  using assms(2)
proof (induction ys)
  case Nil
  show ?case by simp
next
  case (Cons y ys)
  from assms(1) have asym: "lt a b \<Longrightarrow> \<not> lt b a" for a b
    unfolding strictWeakOrdering_def by blast
  from assms(1) have ntrans: "\<not> lt a b \<Longrightarrow> \<not> lt b c \<Longrightarrow> \<not> lt a c" for a b c
    unfolding strictWeakOrdering_def by blast
  from Cons.prems have tail: "sorted_wrt (\<lambda>a b. \<not> lt b a) ys"
    and head: "\<forall>z \<in> set ys. \<not> lt z y"
    by simp_all
  show ?case
  proof (cases "lt y x")
    case True
    then have "\<not> lt x y" by (rule asym)
    with head have "\<forall>z \<in> set (insertBy lt x ys). \<not> lt z y"
      by (simp add: set_insertBy)
    with True Cons.IH [OF tail] show ?thesis by simp
  next
    case False
    with head have "\<forall>z \<in> set ys. \<not> lt z x"
      using ntrans by blast
    with False Cons.prems show ?thesis by simp
  qed
qed

lemma sortStable_post:
  "strictWeakOrdering lt \<Longrightarrow> sort_Slice_post lt xs (sortStable lt xs)"
  by (induction xs) (simp_all add: sort_Slice_post_def mset_insertBy sorted_insertBy)

lemma sortTiesReversed_post:
  assumes "strictWeakOrdering lt"
  shows "sort_Slice_post lt xs (sortTiesReversed lt xs)"
proof -
  from sortStable_post [OF strictWeakOrdering_flip [OF assms], of xs]
  have "mset (sortStable (\<lambda>a b. lt b a) xs) = mset xs"
    and "sorted_wrt (\<lambda>a b. \<not> lt a b) (sortStable (\<lambda>a b. lt b a) xs)"
    by (simp_all add: sort_Slice_post_def)
  then show ?thesis
    by (simp add: sort_Slice_post_def sortTiesReversed_def newer_def After_def sorted_wrt_rev)
qed

lemma sortStable_contract: "sort_Slice_contract sortStable"
  by (simp add: sort_Slice_contract_def sortStable_post)

lemma sortTiesReversed_contract: "sort_Slice_contract sortTiesReversed"
  by (simp add: sort_Slice_contract_def sortTiesReversed_post)

lemma contract_at_newer:
  "sort_Slice_contract sortSlice \<Longrightarrow> sort_Slice_post newer xs (sortSlice newer xs)"
  by (simp add: sort_Slice_contract_def newer_strictWeakOrdering)

lemma sorted_instants:
  assumes "sort_Slice_post newer xs ys"
  shows "map ModTime ys = rev (sort (map ModTime xs))"
proof -
  from assms have m: "mset ys = mset xs" and s: "sorted_wrt (\<lambda>a b. ModTime b \<le> ModTime a) ys"
    by (simp_all add: sort_Slice_post_newer)
  from s have "sorted_wrt (\<lambda>a b. ModTime a \<le> ModTime b) (rev ys)"
    by (simp add: sorted_wrt_rev)
  then have "sorted (map ModTime (rev ys))"
    by (simp add: sorted_map)
  moreover have "mset (map ModTime (rev ys)) = mset (map ModTime xs)"
    using m by (metis mset_map mset_rev)
  ultimately have "sort (map ModTime xs) = map ModTime (rev ys)"
    by (simp add: properties_for_sort)
  then show ?thesis by (simp add: rev_map)
qed

section \<open>Monotonicity in the count\<close>

text \<open>
  C8. For a fixed slice of snapshots, a fixed instant and a fixed policy, replacing
  \<^verbatim>\<open>KeepLast\<close> = k by k + 1 (read as integers, so k + 1 is a value of the field's type) and
  leaving every other field unchanged never turns a keep into a delete: every name marked
  keep under k is marked keep under k + 1.
\<close>

theorem keep_last_count_monotone:
  assumes "sint k' = sint (KeepLast policy) + 1"
    and "lookup_bool (snd (determineSnapshotsToKeep sortSlice policy now snapshots)) n"
  shows "lookup_bool
           (snd (determineSnapshotsToKeep sortSlice (policy\<lparr>KeepLast := k'\<rparr>) now snapshots)) n"
proof -
  have win: "withinWindow (policy\<lparr>KeepLast := k'\<rparr>) now s = withinWindow policy now s" for s
    by (simp add: withinWindow_def)
  from assms(2) show ?thesis
    unfolding determine_lookup win using assms(1) by auto
qed

theorem keep_last_count_monotone_witness:
  "sint (2 :: 64 word) = sint (KeepLast (policyOf 1 0 0 0 0 0)) + 1
   \<and> lookup_bool (snd (determineSnapshotsToKeep sortStable (policyOf 1 0 0 0 0 0) (5 * hourNs)
        [localSnap ''a.db'' hourNs, localSnap ''b.db'' (4 * hourNs),
         localSnap ''c.db'' (2 * hourNs)])) ''b.db''
   \<and> lookup_bool (snd (determineSnapshotsToKeep sortStable
        ((policyOf 1 0 0 0 0 0)\<lparr>KeepLast := 2\<rparr>) (5 * hourNs)
        [localSnap ''a.db'' hourNs, localSnap ''b.db'' (4 * hourNs),
         localSnap ''c.db'' (2 * hourNs)])) ''b.db''"
proof -
  have h1: "sint (2 :: 64 word) = sint (KeepLast (policyOf 1 0 0 0 0 0)) + 1"
    by (simp add: policyOf_def)
  have h2: "lookup_bool (snd (determineSnapshotsToKeep sortStable (policyOf 1 0 0 0 0 0)
        (5 * hourNs)
        [localSnap ''a.db'' hourNs, localSnap ''b.db'' (4 * hourNs),
         localSnap ''c.db'' (2 * hourNs)])) ''b.db''"
    by (simp add: determineSnapshotsToKeep_def newer_def After_def policyOf_def localSnap_def
        hourNs_def keepWithin_def Sub_def Hour_def Let_def)
  have c: "lookup_bool (snd (determineSnapshotsToKeep sortStable
        ((policyOf 1 0 0 0 0 0)\<lparr>KeepLast := 2\<rparr>) (5 * hourNs)
        [localSnap ''a.db'' hourNs, localSnap ''b.db'' (4 * hourNs),
         localSnap ''c.db'' (2 * hourNs)])) ''b.db''"
    by (rule keep_last_count_monotone [OF h1 h2])
  from h1 h2 c show ?thesis by (intro conjI)
qed

section \<open>Durations\<close>

lemma sint_word_of_int_64:
  "- (2 ^ 63) \<le> d \<Longrightarrow> d \<le> 2 ^ 63 - 1 \<Longrightarrow> sint (word_of_int d :: 64 word) = d"
  for d :: int
  by (simp add: sint_sbintrunc' signed_take_bit_int_eq_self)

lemma sint_minDuration: "sint minDuration = - (2 ^ 63)"
  unfolding minDuration_def by (rule sint_word_of_int_64) simp_all

lemma sint_maxDuration: "sint maxDuration = 2 ^ 63 - 1"
  unfolding maxDuration_def by (rule sint_word_of_int_64) simp_all

text \<open>\<^verbatim>\<open>Sub\<close> is the difference of the instants, clamped to the range of a duration.\<close>

lemma sint_Sub:
  "sint (Sub t u) = max (- (2 ^ 63)) (min (2 ^ 63 - 1) (t - u))"
proof -
  consider "t - u < - (2 ^ 63)" | "2 ^ 63 - 1 < t - u"
    | "- (2 ^ 63) \<le> t - u" "t - u \<le> 2 ^ 63 - 1"
    by linarith
  then show ?thesis
  proof cases
    case 1
    then have "Sub t u = minDuration" by (simp add: Sub_def Let_def)
    with 1 show ?thesis by (simp add: sint_minDuration)
  next
    case 2
    then have "Sub t u = maxDuration" by (simp add: Sub_def Let_def)
    with 2 show ?thesis by (simp add: sint_maxDuration)
  next
    case 3
    then have "Sub t u = word_of_int (t - u)" by (simp add: Sub_def Let_def)
    moreover have "sint (word_of_int (t - u) :: 64 word) = t - u"
      using 3 by (rule sint_word_of_int_64)
    ultimately have "sint (Sub t u) = t - u" by (simp only:)
    with 3 show ?thesis by simp
  qed
qed

lemma age_test:
  assumes "0 < p" and "p < 2 ^ 63 - 1"
  shows "sint (Sub now t) \<le> p \<longleftrightarrow> now - t \<le> p"
  unfolding sint_Sub using assms by linarith

text \<open>A product with a constant that does not leave the range is the product of the
  integers.\<close>

lemma sint_times_const:
  fixes u :: "64 word"
  assumes "0 \<le> sint u" and "0 \<le> k" and "sint u * k < 2 ^ 63"
  shows "sint (u * word_of_int k) = sint u * k"
proof -
  have "u * word_of_int k = word_of_int (sint u) * word_of_int k"
    by simp
  also have "\<dots> = word_of_int (sint u * k)"
    by (simp only: of_int_mult)
  finally have "sint (u * word_of_int k) = sint (word_of_int (sint u * k) :: 64 word)"
    by (simp only:)
  moreover have "0 \<le> sint u * k"
    using assms(1,2) by (rule mult_nonneg_nonneg)
  then have "sint (word_of_int (sint u * k) :: 64 word) = sint u * k"
    using assms(3) by (intro sint_word_of_int_64) simp_all
  ultimately show ?thesis by (simp only:)
qed

lemma hours_product:
  fixes u :: "64 word"
  assumes "0 < sint u" and "sint u \<le> 2562047"
  shows "sint (u * Hour) = sint u * hourNs"
proof -
  have "sint u * 3600000000000 < 2 ^ 63"
    using assms by simp
  then have "sint (u * word_of_int 3600000000000) = sint u * 3600000000000"
    using assms(1) by (intro sint_times_const) simp_all
  moreover have "u * Hour = u * word_of_int 3600000000000"
    by (simp add: Hour_def)
  ultimately show ?thesis by (simp add: hourNs_def)
qed

lemma hours_test:
  fixes u :: "64 word"
  assumes "sint u \<le> 2562047"
  shows "0 < sint u \<and> sint (Sub now t) \<le> sint (u * Hour)
     \<longleftrightarrow> 0 < sint u \<and> now - t \<le> sint u * hourNs"
proof (cases "0 < sint u")
  case True
  have p: "sint (u * Hour) = sint u * 3600000000000"
    using hours_product [OF True assms] by (simp add: hourNs_def)
  have "0 < sint u * 3600000000000" and "sint u * 3600000000000 < 2 ^ 63 - 1"
    using True assms by simp_all
  then have "sint (Sub now t) \<le> sint u * 3600000000000 \<longleftrightarrow> now - t \<le> sint u * 3600000000000"
    by (rule age_test)
  with True p show ?thesis by (simp add: hourNs_def)
next
  case False
  then show ?thesis by simp
qed

lemma days_product:
  fixes u :: "64 word"
  assumes "0 < sint u" and "sint u \<le> 106751"
  shows "sint (u * 24 * Hour) = sint u * (24 * hourNs)"
proof -
  have "sint u * 86400000000000 < 2 ^ 63"
    using assms by simp
  then have "sint (u * word_of_int 86400000000000) = sint u * 86400000000000"
    using assms(1) by (intro sint_times_const) simp_all
  moreover have "u * 24 * Hour = u * word_of_int 86400000000000"
    by (simp add: Hour_def)
  ultimately show ?thesis by (simp add: hourNs_def)
qed

lemma days_test:
  fixes u :: "64 word"
  assumes "sint u \<le> 106751"
  shows "0 < sint u \<and> sint (Sub now t) \<le> sint (u * 24 * Hour)
     \<longleftrightarrow> 0 < sint u \<and> now - t \<le> sint u * (24 * hourNs)"
proof (cases "0 < sint u")
  case True
  have p: "sint (u * 24 * Hour) = sint u * 86400000000000"
    using days_product [OF True assms] by (simp add: hourNs_def)
  have "0 < sint u * 86400000000000" and "sint u * 86400000000000 < 2 ^ 63 - 1"
    using True assms by simp_all
  then have "sint (Sub now t) \<le> sint u * 86400000000000 \<longleftrightarrow> now - t \<le> sint u * 86400000000000"
    by (rule age_test)
  with True p show ?thesis by (simp add: hourNs_def)
next
  case False
  then show ?thesis by simp
qed

lemma weeks_product:
  fixes u :: "64 word"
  assumes "0 < sint u" and "sint u \<le> 15250"
  shows "sint (u * 7 * 24 * Hour) = sint u * (7 * 24 * hourNs)"
proof -
  have "sint u * 604800000000000 < 2 ^ 63"
    using assms by simp
  then have "sint (u * word_of_int 604800000000000) = sint u * 604800000000000"
    using assms(1) by (intro sint_times_const) simp_all
  moreover have "u * 7 * 24 * Hour = u * word_of_int 604800000000000"
    by (simp add: Hour_def)
  ultimately show ?thesis by (simp add: hourNs_def)
qed

lemma weeks_test:
  fixes u :: "64 word"
  assumes "sint u \<le> 15250"
  shows "0 < sint u \<and> sint (Sub now t) \<le> sint (u * 7 * 24 * Hour)
     \<longleftrightarrow> 0 < sint u \<and> now - t \<le> sint u * (7 * 24 * hourNs)"
proof (cases "0 < sint u")
  case True
  have p: "sint (u * 7 * 24 * Hour) = sint u * 604800000000000"
    using weeks_product [OF True assms] by (simp add: hourNs_def)
  have "0 < sint u * 604800000000000" and "sint u * 604800000000000 < 2 ^ 63 - 1"
    using True assms by simp_all
  then have "sint (Sub now t) \<le> sint u * 604800000000000 \<longleftrightarrow> now - t \<le> sint u * 604800000000000"
    by (rule age_test)
  with True p show ?thesis by (simp add: hourNs_def)
next
  case False
  then show ?thesis by simp
qed

lemma months_product:
  fixes u :: "64 word"
  assumes "0 < sint u" and "sint u \<le> 3558"
  shows "sint (u * 30 * 24 * Hour) = sint u * (30 * 24 * hourNs)"
proof -
  have "sint u * 2592000000000000 < 2 ^ 63"
    using assms by simp
  then have "sint (u * word_of_int 2592000000000000) = sint u * 2592000000000000"
    using assms(1) by (intro sint_times_const) simp_all
  moreover have "u * 30 * 24 * Hour = u * word_of_int 2592000000000000"
    by (simp add: Hour_def)
  ultimately show ?thesis by (simp add: hourNs_def)
qed

lemma months_test:
  fixes u :: "64 word"
  assumes "sint u \<le> 3558"
  shows "0 < sint u \<and> sint (Sub now t) \<le> sint (u * 30 * 24 * Hour)
     \<longleftrightarrow> 0 < sint u \<and> now - t \<le> sint u * (30 * 24 * hourNs)"
proof (cases "0 < sint u")
  case True
  have p: "sint (u * 30 * 24 * Hour) = sint u * 2592000000000000"
    using months_product [OF True assms] by (simp add: hourNs_def)
  have "0 < sint u * 2592000000000000" and "sint u * 2592000000000000 < 2 ^ 63 - 1"
    using True assms by simp_all
  then have "sint (Sub now t) \<le> sint u * 2592000000000000 \<longleftrightarrow> now - t \<le> sint u * 2592000000000000"
    by (rule age_test)
  with True p show ?thesis by (simp add: hourNs_def)
next
  case False
  then show ?thesis by simp
qed

lemma years_product:
  fixes u :: "64 word"
  assumes "0 < sint u" and "sint u \<le> 292"
  shows "sint (u * 365 * 24 * Hour) = sint u * (365 * 24 * hourNs)"
proof -
  have "sint u * 31536000000000000 < 2 ^ 63"
    using assms by simp
  then have "sint (u * word_of_int 31536000000000000) = sint u * 31536000000000000"
    using assms(1) by (intro sint_times_const) simp_all
  moreover have "u * 365 * 24 * Hour = u * word_of_int 31536000000000000"
    by (simp add: Hour_def)
  ultimately show ?thesis by (simp add: hourNs_def)
qed

lemma years_test:
  fixes u :: "64 word"
  assumes "sint u \<le> 292"
  shows "0 < sint u \<and> sint (Sub now t) \<le> sint (u * 365 * 24 * Hour)
     \<longleftrightarrow> 0 < sint u \<and> now - t \<le> sint u * (365 * 24 * hourNs)"
proof (cases "0 < sint u")
  case True
  have p: "sint (u * 365 * 24 * Hour) = sint u * 31536000000000000"
    using years_product [OF True assms] by (simp add: hourNs_def)
  have "0 < sint u * 31536000000000000" and "sint u * 31536000000000000 < 2 ^ 63 - 1"
    using True assms by simp_all
  then have "sint (Sub now t) \<le> sint u * 31536000000000000 \<longleftrightarrow> now - t \<le> sint u * 31536000000000000"
    by (rule age_test)
  with True p show ?thesis by (simp add: hourNs_def)
next
  case False
  then show ?thesis by simp
qed

lemma withinWindow_ageWithin:
  assumes "windowsInRange policy"
  shows "withinWindow policy now s \<longleftrightarrow> ageWithin policy now s"
proof -
  from assms have b: "sint (KeepLastHours policy) \<le> 2562047" "sint (KeepLastDays policy) \<le> 106751"
    "sint (KeepLastWeeks policy) \<le> 15250" "sint (KeepLastMonths policy) \<le> 3558"
    "sint (KeepLastYears policy) \<le> 292"
    by (simp_all add: windowsInRange_def)
  show ?thesis
    unfolding withinWindow_def ageWithin_def Let_def
    by (simp only: hours_test [OF b(1)] days_test [OF b(2)] weeks_test [OF b(3)]
        months_test [OF b(4)] years_test [OF b(5)])
qed

section \<open>The verdict as the disjunction of the rules\<close>

lemma amongFirst_nth:
  "amongFirst k xs s \<longleftrightarrow> 0 < sint k \<and> (\<exists>j < length xs. int j < sint k \<and> xs ! j = s)"
proof (cases "0 < sint k")
  case True
  have "s \<in> set (take (nat (sint k)) xs) \<longleftrightarrow> (\<exists>j < length xs. int j < sint k \<and> xs ! j = s)"
  proof
    assume "s \<in> set (take (nat (sint k)) xs)"
    then obtain j where j: "j < length (take (nat (sint k)) xs)" "take (nat (sint k)) xs ! j = s"
      by (auto simp: in_set_conv_nth)
    then have "j < length xs \<and> int j < sint k \<and> xs ! j = s"
      by auto
    then show "\<exists>j < length xs. int j < sint k \<and> xs ! j = s" by blast
  next
    assume "\<exists>j < length xs. int j < sint k \<and> xs ! j = s"
    then obtain j where j: "j < length xs" "int j < sint k" "xs ! j = s" by blast
    then have "j < length (take (nat (sint k)) xs) \<and> take (nat (sint k)) xs ! j = s"
      by auto
    then show "s \<in> set (take (nat (sint k)) xs)"
      by (auto simp: in_set_conv_nth)
  qed
  with True show ?thesis by (simp add: amongFirst_def)
next
  case False
  then show ?thesis by (simp add: amongFirst_def)
qed

lemma count_rule_names:
  "(0 < sint k \<and> (\<exists>j < length xs. int j < sint k \<and> Name (xs ! j) = n))
     \<longleftrightarrow> (\<exists>s \<in> set xs. Name s = n \<and> amongFirst k xs s)"
proof
  assume "0 < sint k \<and> (\<exists>j < length xs. int j < sint k \<and> Name (xs ! j) = n)"
  then obtain j where j: "0 < sint k" "j < length xs" "int j < sint k" "Name (xs ! j) = n"
    by blast
  then have "xs ! j \<in> set xs \<and> Name (xs ! j) = n \<and> amongFirst k xs (xs ! j)"
    by (auto simp: amongFirst_nth)
  then show "\<exists>s \<in> set xs. Name s = n \<and> amongFirst k xs s" by blast
next
  assume "\<exists>s \<in> set xs. Name s = n \<and> amongFirst k xs s"
  then show "0 < sint k \<and> (\<exists>j < length xs. int j < sint k \<and> Name (xs ! j) = n)"
    by (auto simp: amongFirst_nth)
qed

lemma verdict_by_name:
  assumes "sort_Slice_post newer snapshots (sortSlice newer snapshots)"
    and "windowsInRange policy"
  shows "lookup_bool (snd (determineSnapshotsToKeep sortSlice policy now snapshots)) m \<longleftrightarrow>
         (\<exists>s \<in> set snapshots. Name s = m
            \<and> (amongFirst (KeepLast policy) (sortSlice newer snapshots) s \<or> ageWithin policy now s))"
proof -
  from assms(1) have "mset (sortSlice newer snapshots) = mset snapshots"
    by (simp add: sort_Slice_post_newer)
  then have same: "set (sortSlice newer snapshots) = set snapshots"
    by (rule mset_eq_setD)
  have "lookup_bool (snd (determineSnapshotsToKeep sortSlice policy now snapshots)) m \<longleftrightarrow>
     (\<exists>s \<in> set (sortSlice newer snapshots). Name s = m \<and> amongFirst (KeepLast policy) (sortSlice newer snapshots) s)
     \<or> (\<exists>s \<in> set (sortSlice newer snapshots). Name s = m \<and> ageWithin policy now s)"
    by (simp only: determine_lookup count_rule_names withinWindow_ageWithin [OF assms(2)])
  then show ?thesis
    unfolding same by blast
qed

lemma distinct_names_record:
  assumes d: "distinct (map Name snapshots)" and s: "s \<in> set snapshots"
  shows "(\<exists>s' \<in> set snapshots. Name s' = Name s \<and> P s') \<longleftrightarrow> P s"
proof -
  from d have "inj_on Name (set snapshots)"
    by (simp add: distinct_map)
  then have "s' = s" if "s' \<in> set snapshots" "Name s' = Name s" for s'
    using that s by (meson inj_onD)
  with s show ?thesis by blast
qed

text \<open>
  C2, as the code has it. The verdict map is keyed by name, so the verdict read for a
  record is the verdict of its name: a name is marked keep if and only if some record
  carrying it is among the first \<^verbatim>\<open>KeepLast\<close> records of the slice in the order the sort
  left it (newest first), or has an age of at most \<open>u\<close> units for some enabled window
  \<open>u > 0\<close>; the rules combine by disjunction. When the names of the slice are pairwise
  distinct, this is the statement for each record. The window thresholds are taken in
  the range where their product with the unit fits a \<^verbatim>\<open>time.Duration\<close>.
\<close>

theorem verdict_is_disjunction_of_rules:
  assumes "sort_Slice_post newer snapshots (sortSlice newer snapshots)"
    and "windowsInRange policy"
  shows "sorted_wrt (\<lambda>a b. ModTime b \<le> ModTime a) (sortSlice newer snapshots)
    \<and> (lookup_bool (snd (determineSnapshotsToKeep sortSlice policy now snapshots)) n \<longleftrightarrow>
         (\<exists>s \<in> set snapshots. Name s = n
            \<and> (amongFirst (KeepLast policy) (sortSlice newer snapshots) s \<or> ageWithin policy now s)))
    \<and> (distinct (map Name snapshots) \<longrightarrow>
         (\<forall>s \<in> set snapshots.
            lookup_bool (snd (determineSnapshotsToKeep sortSlice policy now snapshots)) (Name s) \<longleftrightarrow>
              amongFirst (KeepLast policy) (sortSlice newer snapshots) s \<or> ageWithin policy now s))"
proof (intro conjI impI ballI)
  from assms(1) show "sorted_wrt (\<lambda>a b. ModTime b \<le> ModTime a) (sortSlice newer snapshots)"
    by (simp add: sort_Slice_post_newer)
next
  show "lookup_bool (snd (determineSnapshotsToKeep sortSlice policy now snapshots)) n \<longleftrightarrow>
         (\<exists>s \<in> set snapshots. Name s = n
            \<and> (amongFirst (KeepLast policy) (sortSlice newer snapshots) s \<or> ageWithin policy now s))"
    by (rule verdict_by_name [where sortSlice = sortSlice and snapshots = snapshots, OF assms])
next
  fix s
  assume d: "distinct (map Name snapshots)" and s: "s \<in> set snapshots"
  show "lookup_bool (snd (determineSnapshotsToKeep sortSlice policy now snapshots)) (Name s) \<longleftrightarrow>
              amongFirst (KeepLast policy) (sortSlice newer snapshots) s \<or> ageWithin policy now s"
    unfolding verdict_by_name [where sortSlice = sortSlice and snapshots = snapshots, OF assms]
    by (rule distinct_names_record [OF d s])
qed

theorem verdict_is_disjunction_of_rules_witness:
  "sort_Slice_post newer
      [localSnap ''a.db'' hourNs, localSnap ''b.db'' (4 * hourNs), localSnap ''c.db'' (3 * hourNs)]
      (sortStable newer
        [localSnap ''a.db'' hourNs, localSnap ''b.db'' (4 * hourNs), localSnap ''c.db'' (3 * hourNs)])
   \<and> windowsInRange (policyOf 1 2 0 0 0 0)
   \<and> distinct (map Name
        [localSnap ''a.db'' hourNs, localSnap ''b.db'' (4 * hourNs), localSnap ''c.db'' (3 * hourNs)])
   \<and> lookup_bool (snd (determineSnapshotsToKeep sortStable (policyOf 1 2 0 0 0 0) (5 * hourNs)
        [localSnap ''a.db'' hourNs, localSnap ''b.db'' (4 * hourNs), localSnap ''c.db'' (3 * hourNs)]))
        ''c.db''
   \<and> ageWithin (policyOf 1 2 0 0 0 0) (5 * hourNs) (localSnap ''c.db'' (3 * hourNs))
   \<and> \<not> lookup_bool (snd (determineSnapshotsToKeep sortStable (policyOf 1 2 0 0 0 0) (5 * hourNs)
        [localSnap ''a.db'' hourNs, localSnap ''b.db'' (4 * hourNs), localSnap ''c.db'' (3 * hourNs)]))
        ''a.db''"
proof -
  have h1: "sort_Slice_post newer
      [localSnap ''a.db'' hourNs, localSnap ''b.db'' (4 * hourNs), localSnap ''c.db'' (3 * hourNs)]
      (sortStable newer
        [localSnap ''a.db'' hourNs, localSnap ''b.db'' (4 * hourNs), localSnap ''c.db'' (3 * hourNs)])"
    by (simp add: sort_Slice_post_newer newer_def After_def localSnap_def hourNs_def)
  have h2: "windowsInRange (policyOf 1 2 0 0 0 0)"
    by (simp add: windowsInRange_def policyOf_def)
  have h3: "distinct (map Name
        [localSnap ''a.db'' hourNs, localSnap ''b.db'' (4 * hourNs), localSnap ''c.db'' (3 * hourNs)])"
    by (simp add: localSnap_def)
  have age_c: "ageWithin (policyOf 1 2 0 0 0 0) (5 * hourNs) (localSnap ''c.db'' (3 * hourNs))"
    by (simp add: ageWithin_def policyOf_def localSnap_def hourNs_def)
  have age_a: "\<not> ageWithin (policyOf 1 2 0 0 0 0) (5 * hourNs) (localSnap ''a.db'' hourNs)"
    by (simp add: ageWithin_def policyOf_def localSnap_def hourNs_def)
  have first_a: "\<not> amongFirst (KeepLast (policyOf 1 2 0 0 0 0))
      (sortStable newer
        [localSnap ''a.db'' hourNs, localSnap ''b.db'' (4 * hourNs), localSnap ''c.db'' (3 * hourNs)])
      (localSnap ''a.db'' hourNs)"
    by (simp add: amongFirst_def policyOf_def newer_def After_def localSnap_def hourNs_def)
  note c = verdict_is_disjunction_of_rules [where sortSlice = sortStable
      and policy = "policyOf 1 2 0 0 0 0" and now = "5 * hourNs" and n = "''c.db''"
      and snapshots = "[localSnap ''a.db'' hourNs, localSnap ''b.db'' (4 * hourNs),
        localSnap ''c.db'' (3 * hourNs)]", OF h1 h2]
  from c h3 age_c have keep_c: "lookup_bool (snd (determineSnapshotsToKeep sortStable
        (policyOf 1 2 0 0 0 0) (5 * hourNs)
        [localSnap ''a.db'' hourNs, localSnap ''b.db'' (4 * hourNs), localSnap ''c.db'' (3 * hourNs)]))
        (Name (localSnap ''c.db'' (3 * hourNs)))"
    by simp
  from c h3 age_a first_a have del_a: "\<not> lookup_bool (snd (determineSnapshotsToKeep sortStable
        (policyOf 1 2 0 0 0 0) (5 * hourNs)
        [localSnap ''a.db'' hourNs, localSnap ''b.db'' (4 * hourNs), localSnap ''c.db'' (3 * hourNs)]))
        (Name (localSnap ''a.db'' hourNs))"
    by simp
  from keep_c del_a have "lookup_bool (snd (determineSnapshotsToKeep sortStable
        (policyOf 1 2 0 0 0 0) (5 * hourNs)
        [localSnap ''a.db'' hourNs, localSnap ''b.db'' (4 * hourNs), localSnap ''c.db'' (3 * hourNs)]))
        ''c.db''"
    and "\<not> lookup_bool (snd (determineSnapshotsToKeep sortStable
        (policyOf 1 2 0 0 0 0) (5 * hourNs)
        [localSnap ''a.db'' hourNs, localSnap ''b.db'' (4 * hourNs), localSnap ''c.db'' (3 * hourNs)]))
        ''a.db''"
    by (simp_all add: localSnap_def)
  with h1 h2 h3 age_c show ?thesis by (intro conjI)
qed

text \<open>
  The statement for each record fails when two records of the slice carry the same name:
  the older of the two objects \<open>snap.db\<close> is neither among the first \<^verbatim>\<open>KeepLast\<close> = 1
  records nor inside a window (all windows are off), and the verdict read for it is keep,
  because the newer object of the same name is the first record.
\<close>

theorem record_verdict_counterexample:
  "dupOld \<in> set [dupOld, dupNew]
   \<and> sort_Slice_post newer [dupOld, dupNew] (sortStable newer [dupOld, dupNew])
   \<and> sortStable newer [dupOld, dupNew] = [dupNew, dupOld]
   \<and> lookup_bool (snd (determineSnapshotsToKeep sortStable (policyOf 1 0 0 0 0 0)
        (1000 * hourNs) [dupOld, dupNew])) (Name dupOld)
   \<and> \<not> amongFirst (KeepLast (policyOf 1 0 0 0 0 0)) (sortStable newer [dupOld, dupNew]) dupOld
   \<and> \<not> ageWithin (policyOf 1 0 0 0 0 0) (1000 * hourNs) dupOld"
  by (simp add: sort_Slice_post_newer newer_def After_def dupOld_def dupNew_def hourNs_def
      determineSnapshotsToKeep_def policyOf_def keepWithin_def Sub_def Hour_def Let_def
      amongFirst_def ageWithin_def)

text \<open>
  Outside the range of \<open>windowsInRange\<close> the product wraps around: with
  \<^verbatim>\<open>KeepLastYears\<close> = 293 the bound computed by the code is negative, and a snapshot one
  hour old is not kept although its age is below 293 years.
\<close>

lemma window_product_wraps:
  "sint ((293 :: 64 word) * 365 * 24 * Hour) = - 9206696073709551616
   \<and> ageWithin (policyOf 0 0 0 0 0 293) (5 * hourNs) (localSnap ''a.db'' (4 * hourNs))
   \<and> \<not> lookup_bool (snd (determineSnapshotsToKeep sortStable (policyOf 0 0 0 0 0 293)
          (5 * hourNs) [localSnap ''a.db'' (4 * hourNs)])) ''a.db''"
  by (simp add: newer_def After_def localSnap_def hourNs_def
      determineSnapshotsToKeep_def policyOf_def keepWithin_def Sub_def Hour_def Let_def
      ageWithin_def)

section \<open>The order of snapshots of the same instant\<close>

text \<open>
  C5, as the code has it. The evaluator's order is what \<^verbatim>\<open>sort.Slice\<close> leaves: a function
  of the input slice in which the instants appear newest first, so the sequence of
  instants is fixed by the input. \<^verbatim>\<open>sort.Slice\<close> is not a stable sort, and nothing in the
  evaluator restores the input order among snapshots of the same instant. The count rule
  keeps the names at the first \<^verbatim>\<open>KeepLast\<close> positions of that order, and with all windows
  off nothing else.
\<close>

theorem evaluation_order_fixed_up_to_ties:
  assumes "sort_Slice_post newer snapshots (sortSlice newer snapshots)"
  shows "map ModTime (fst (determineSnapshotsToKeep sortSlice policy now snapshots))
           = rev (sort (map ModTime snapshots))
    \<and> (\<forall>j < length (sortSlice newer snapshots). int j < sint (KeepLast policy) \<longrightarrow>
          lookup_bool (snd (determineSnapshotsToKeep sortSlice policy now snapshots))
            (Name (sortSlice newer snapshots ! j)))
    \<and> (windowsDisabled policy \<longrightarrow>
          (lookup_bool (snd (determineSnapshotsToKeep sortSlice policy now snapshots)) n \<longleftrightarrow>
             (\<exists>j < length (sortSlice newer snapshots). int j < sint (KeepLast policy)
                \<and> Name (sortSlice newer snapshots ! j) = n)))"
proof (intro conjI allI impI)
  have "fst (determineSnapshotsToKeep sortSlice policy now snapshots) = sortSlice newer snapshots"
    by (simp add: determineSnapshotsToKeep_def Let_def)
  with assms show "map ModTime (fst (determineSnapshotsToKeep sortSlice policy now snapshots))
           = rev (sort (map ModTime snapshots))"
    by (simp add: sorted_instants)
next
  fix j
  assume j: "j < length (sortSlice newer snapshots)" "int j < sint (KeepLast policy)"
  then have "0 < sint (KeepLast policy)" by linarith
  with j show "lookup_bool (snd (determineSnapshotsToKeep sortSlice policy now snapshots))
            (Name (sortSlice newer snapshots ! j))"
    unfolding determine_lookup by blast
next
  assume "windowsDisabled policy"
  then have "\<not> withinWindow policy now s" for s
    by (simp add: windowsDisabled_def withinWindow_def Let_def)
  then show "lookup_bool (snd (determineSnapshotsToKeep sortSlice policy now snapshots)) n \<longleftrightarrow>
             (\<exists>j < length (sortSlice newer snapshots). int j < sint (KeepLast policy)
                \<and> Name (sortSlice newer snapshots ! j) = n)"
    unfolding determine_lookup by fastforce
qed

theorem evaluation_order_fixed_up_to_ties_witness:
  "sort_Slice_post newer tieSample (sortTiesReversed newer tieSample)
   \<and> windowsDisabled (policyOf 12 0 0 0 0 0)
   \<and> map ModTime (fst (determineSnapshotsToKeep sortTiesReversed (policyOf 12 0 0 0 0 0)
        (102 * hourNs) tieSample)) = rev (sort (map ModTime tieSample))
   \<and> (lookup_bool (snd (determineSnapshotsToKeep sortTiesReversed (policyOf 12 0 0 0 0 0)
          (102 * hourNs) tieSample)) ''s01'' \<longleftrightarrow>
        (\<exists>j < length (sortTiesReversed newer tieSample). int j < sint (KeepLast (policyOf 12 0 0 0 0 0))
            \<and> Name (sortTiesReversed newer tieSample ! j) = ''s01''))"
proof -
  have h: "sort_Slice_post newer tieSample (sortTiesReversed newer tieSample)"
    by (rule sortTiesReversed_post [OF newer_strictWeakOrdering])
  have d: "windowsDisabled (policyOf 12 0 0 0 0 0)"
    by (simp add: windowsDisabled_def policyOf_def)
  note c = evaluation_order_fixed_up_to_ties [where sortSlice = sortTiesReversed
      and snapshots = tieSample and policy = "policyOf 12 0 0 0 0 0" and now = "102 * hourNs"
      and n = "''s01''", OF h]
  from c have c1: "map ModTime (fst (determineSnapshotsToKeep sortTiesReversed
        (policyOf 12 0 0 0 0 0) (102 * hourNs) tieSample)) = rev (sort (map ModTime tieSample))"
    by (rule conjunct1)
  from c d have c3: "lookup_bool (snd (determineSnapshotsToKeep sortTiesReversed
          (policyOf 12 0 0 0 0 0) (102 * hourNs) tieSample)) ''s01'' \<longleftrightarrow>
        (\<exists>j < length (sortTiesReversed newer tieSample). int j < sint (KeepLast (policyOf 12 0 0 0 0 0))
            \<and> Name (sortTiesReversed newer tieSample ! j) = ''s01'')"
    by blast
  from h d c1 c3 show ?thesis by (intro conjI)
qed

text \<open>
  Stability is not part of it. In \<open>tieSample\<close> the snapshots \<open>s01\<close> and \<open>s02\<close> carry the same
  instant and \<open>s01\<close> comes first. The order below meets everything \<^verbatim>\<open>sort.Slice\<close> promises,
  places \<open>s02\<close> before \<open>s01\<close>, and with \<^verbatim>\<open>KeepLast\<close> = 12 the count rule keeps \<open>s02\<close> and
  deletes \<open>s01\<close>; the order that preserves the input order of the two keeps \<open>s01\<close> and
  deletes \<open>s02\<close>.
\<close>

theorem same_instant_order_counterexample:
  "Name (tieSample ! 1) = ''s01'' \<and> Name (tieSample ! 2) = ''s02''
   \<and> ModTime (tieSample ! 1) = ModTime (tieSample ! 2)
   \<and> sort_Slice_post newer tieSample (sortTiesReversed newer tieSample)
   \<and> map Name (sortTiesReversed newer tieSample)
       = [''s12'', ''s11'', ''s00'', ''s03'', ''s04'', ''s05'', ''s06'', ''s07'', ''s08'', ''s09'',
          ''s10'', ''s02'', ''s01'']
   \<and> lookup_bool (snd (determineSnapshotsToKeep sortTiesReversed (policyOf 12 0 0 0 0 0)
          (102 * hourNs) tieSample)) ''s02''
   \<and> \<not> lookup_bool (snd (determineSnapshotsToKeep sortTiesReversed (policyOf 12 0 0 0 0 0)
          (102 * hourNs) tieSample)) ''s01''
   \<and> lookup_bool (snd (determineSnapshotsToKeep sortStable (policyOf 12 0 0 0 0 0)
          (102 * hourNs) tieSample)) ''s01''
   \<and> \<not> lookup_bool (snd (determineSnapshotsToKeep sortStable (policyOf 12 0 0 0 0 0)
          (102 * hourNs) tieSample)) ''s02''"
proof -
  have a: "Name (tieSample ! 1) = ''s01'' \<and> Name (tieSample ! 2) = ''s02''
      \<and> ModTime (tieSample ! 1) = ModTime (tieSample ! 2)"
    by (simp add: tieSample_def localSnap_def)
  have b: "sort_Slice_post newer tieSample (sortTiesReversed newer tieSample)"
    by (simp add: sort_Slice_post_newer sortTiesReversed_def newer_def After_def tieSample_def localSnap_def
        hourNs_def)
  have c: "map Name (sortTiesReversed newer tieSample)
       = [''s12'', ''s11'', ''s00'', ''s03'', ''s04'', ''s05'', ''s06'', ''s07'', ''s08'', ''s09'',
          ''s10'', ''s02'', ''s01'']"
    by (simp add: sortTiesReversed_def newer_def After_def tieSample_def localSnap_def hourNs_def)
  have d: "lookup_bool (snd (determineSnapshotsToKeep sortTiesReversed (policyOf 12 0 0 0 0 0)
          (102 * hourNs) tieSample)) ''s02''
     \<and> \<not> lookup_bool (snd (determineSnapshotsToKeep sortTiesReversed (policyOf 12 0 0 0 0 0)
          (102 * hourNs) tieSample)) ''s01''"
    by (simp add: determineSnapshotsToKeep_def sortTiesReversed_def newer_def After_def tieSample_def policyOf_def
        localSnap_def hourNs_def keepWithin_def Sub_def Hour_def Let_def)
  have e: "lookup_bool (snd (determineSnapshotsToKeep sortStable (policyOf 12 0 0 0 0 0)
          (102 * hourNs) tieSample)) ''s01''
     \<and> \<not> lookup_bool (snd (determineSnapshotsToKeep sortStable (policyOf 12 0 0 0 0 0)
          (102 * hourNs) tieSample)) ''s02''"
    by (simp add: determineSnapshotsToKeep_def newer_def After_def tieSample_def policyOf_def
        localSnap_def hourNs_def keepWithin_def Sub_def Hour_def Let_def)
  from a b c d e show ?thesis by (intro conjI) simp_all
qed

text \<open>
  In the unified evaluation the slice handed to the evaluator is filled by ranging over a
  map, in an order the runtime chooses. For two snapshots of the same instant the two
  visiting orders of the merged map give two different verdicts with \<^verbatim>\<open>KeepLast\<close> = 1,
  even under an order-preserving sort.
\<close>

lemma unified_tie_follows_map_order:
  "range_post (unifiedSnapshotMap [localSnap ''a.db'' hourNs, localSnap ''b.db'' hourNs] [])
      (map snd (unifiedSnapshotMap [localSnap ''a.db'' hourNs, localSnap ''b.db'' hourNs] []))
   \<and> range_post (unifiedSnapshotMap [localSnap ''a.db'' hourNs, localSnap ''b.db'' hourNs] [])
      (rev (map snd (unifiedSnapshotMap [localSnap ''a.db'' hourNs, localSnap ''b.db'' hourNs] [])))
   \<and> lookup_bool (GetUnifiedRetentionStatus sortStable (map snd) (policyOf 1 0 0 0 0 0)
        (2 * hourNs) [localSnap ''a.db'' hourNs, localSnap ''b.db'' hourNs] []) ''a.db''
   \<and> \<not> lookup_bool (GetUnifiedRetentionStatus sortStable (map snd) (policyOf 1 0 0 0 0 0)
        (2 * hourNs) [localSnap ''a.db'' hourNs, localSnap ''b.db'' hourNs] []) ''b.db''
   \<and> lookup_bool (GetUnifiedRetentionStatus sortStable (\<lambda>m. rev (map snd m))
        (policyOf 1 0 0 0 0 0) (2 * hourNs)
        [localSnap ''a.db'' hourNs, localSnap ''b.db'' hourNs] []) ''b.db''
   \<and> \<not> lookup_bool (GetUnifiedRetentionStatus sortStable (\<lambda>m. rev (map snd m))
        (policyOf 1 0 0 0 0 0) (2 * hourNs)
        [localSnap ''a.db'' hourNs, localSnap ''b.db'' hourNs] []) ''a.db''"
  by (simp add: range_post_def GetUnifiedRetentionStatus_def createUnifiedSnapshotList_def
      unifiedSnapshotMap_def determineSnapshotsToKeep_def newer_def After_def policyOf_def
      localSnap_def hourNs_def keepWithin_def Sub_def Hour_def Let_def)

section \<open>The merge of the two listings\<close>























section \<open>Applying the merged verdict to each store\<close>

lemma applyLocalLoop_filter:
  "applyLocalLoop d dryRun ss (kept, deleted, removed) =
     (kept + length (filter (\<lambda>s. lookup_bool d (Name s)) ss),
      deleted + length (filter (\<lambda>s. \<not> lookup_bool d (Name s)) ss),
      removed @ (if dryRun then [] else map Path (filter (\<lambda>s. \<not> lookup_bool d (Name s)) ss)))"
  by (cases dryRun; induction ss arbitrary: kept deleted removed) simp_all

lemma applyS3Loop_filter:
  "applyS3Loop d ss (kept, deleted, keysToDelete) =
     (kept + length (filter (\<lambda>s. lookup_bool d (Name s)) ss),
      deleted + length (filter (\<lambda>s. \<not> lookup_bool d (Name s)) ss),
      keysToDelete @ map Path (filter (\<lambda>s. \<not> lookup_bool d (Name s)) ss))"
  by (induction ss arbitrary: kept deleted keysToDelete) simp_all

lemma applyRetentionToLocal_filter:
  "applyRetentionToLocal ss d dryRun =
     (length (filter (\<lambda>s. lookup_bool d (Name s)) ss),
      length (filter (\<lambda>s. \<not> lookup_bool d (Name s)) ss),
      if dryRun then [] else map Path (filter (\<lambda>s. \<not> lookup_bool d (Name s)) ss))"
  by (simp add: applyRetentionToLocal_def applyLocalLoop_filter)

lemma applyRetentionToS3_filter:
  "applyRetentionToS3 ss d dryRun =
     (length (filter (\<lambda>s. lookup_bool d (Name s)) ss),
      length (filter (\<lambda>s. \<not> lookup_bool d (Name s)) ss),
      if dryRun then [] else map Path (filter (\<lambda>s. \<not> lookup_bool d (Name s)) ss))"
  by (simp add: applyRetentionToS3_def applyS3Loop_filter)

text \<open>
  C4. \<^verbatim>\<open>ApplyUnified\<close> computes one verdict from the merged listing and applies it to the
  two original listings separately. In each store the deletions requested are exactly the
  records of that store's own listing whose name the merged verdict does not keep (none on
  a dry run); the store's own copy and its age play no part. So a record whose name the
  merged verdict keeps is deleted in neither store.
\<close>

theorem apply_unified_per_store:
  "ApplyUnified sortSlice rng policy now (Inr localSnapshots) (Some (Inr s3Snapshots)) dryRun =
     Inr \<lparr>localRemoved =
            (if dryRun then []
             else map Path (filter (\<lambda>s. \<not> lookup_bool
                    (GetUnifiedRetentionStatus sortSlice rng policy now localSnapshots s3Snapshots)
                    (Name s)) localSnapshots)),
          s3Removed =
            (if dryRun then []
             else map Path (filter (\<lambda>s. \<not> lookup_bool
                    (GetUnifiedRetentionStatus sortSlice rng policy now localSnapshots s3Snapshots)
                    (Name s)) s3Snapshots)),
          localKept = length (filter (\<lambda>s. lookup_bool
                    (GetUnifiedRetentionStatus sortSlice rng policy now localSnapshots s3Snapshots)
                    (Name s)) localSnapshots),
          localDeleted = length (filter (\<lambda>s. \<not> lookup_bool
                    (GetUnifiedRetentionStatus sortSlice rng policy now localSnapshots s3Snapshots)
                    (Name s)) localSnapshots),
          s3Kept = length (filter (\<lambda>s. lookup_bool
                    (GetUnifiedRetentionStatus sortSlice rng policy now localSnapshots s3Snapshots)
                    (Name s)) s3Snapshots),
          s3Deleted = length (filter (\<lambda>s. \<not> lookup_bool
                    (GetUnifiedRetentionStatus sortSlice rng policy now localSnapshots s3Snapshots)
                    (Name s)) s3Snapshots)\<rparr>"
  by (simp add: ApplyUnified_def Let_def applyRetentionToLocal_filter applyRetentionToS3_filter)

text \<open>
  A run: \<open>a.db\<close> is 29 hours old locally and one hour old remotely, \<open>b.db\<close> is 28 hours
  old and local only, the policy keeps 24 hours. The merged verdict keeps \<open>a.db\<close>, and the
  old local copy of \<open>a.db\<close> is not removed, although the local listing evaluated alone
  would delete it; \<open>b.db\<close> is removed.
\<close>

theorem apply_unified_per_store_witness:
  "ApplyUnified sortStable (map snd) (policyOf 0 24 0 0 0 0) (30 * hourNs)
      (Inr [localSnap ''a.db'' hourNs, localSnap ''b.db'' (2 * hourNs)])
      (Some (Inr [s3Snap ''a.db'' (29 * hourNs)])) False
     = Inr \<lparr>localRemoved = [''/var/lib/etcd/snapshots/b.db''], s3Removed = [], localKept = 1,
            localDeleted = 1, s3Kept = 1, s3Deleted = 0\<rparr>
   \<and> \<not> lookup_bool (snd (GetRetentionStatus sortStable (policyOf 0 24 0 0 0 0) (30 * hourNs)
          [localSnap ''a.db'' hourNs, localSnap ''b.db'' (2 * hourNs)])) ''a.db''"
proof -
  have v: "GetUnifiedRetentionStatus sortStable (map snd) (policyOf 0 24 0 0 0 0) (30 * hourNs)
      [localSnap ''a.db'' hourNs, localSnap ''b.db'' (2 * hourNs)] [s3Snap ''a.db'' (29 * hourNs)]
      = [''a.db'' \<mapsto> True]"
    by (simp add: GetUnifiedRetentionStatus_def createUnifiedSnapshotList_def
        unifiedSnapshotMap_def addS3Snapshot_def determineSnapshotsToKeep_def newer_def After_def
        policyOf_def localSnap_def s3Snap_def hourNs_def keepWithin_def Sub_def Hour_def
        After_def Let_def)
  have a: "ApplyUnified sortStable (map snd) (policyOf 0 24 0 0 0 0) (30 * hourNs)
      (Inr [localSnap ''a.db'' hourNs, localSnap ''b.db'' (2 * hourNs)])
      (Some (Inr [s3Snap ''a.db'' (29 * hourNs)])) False
     = Inr \<lparr>localRemoved = [''/var/lib/etcd/snapshots/b.db''], s3Removed = [], localKept = 1,
            localDeleted = 1, s3Kept = 1, s3Deleted = 0\<rparr>"
    unfolding apply_unified_per_store v
    by (simp add: localSnap_def s3Snap_def lookup_bool_def)
  have b: "\<not> lookup_bool (snd (GetRetentionStatus sortStable (policyOf 0 24 0 0 0 0)
          (30 * hourNs) [localSnap ''a.db'' hourNs, localSnap ''b.db'' (2 * hourNs)])) ''a.db''"
    by (simp add: GetRetentionStatus_def determineSnapshotsToKeep_def newer_def After_def
        policyOf_def localSnap_def hourNs_def keepWithin_def Sub_def Hour_def Let_def)
  from a b show ?thesis by (intro conjI)
qed

section \<open>Selecting the uploads\<close>

lemma s3NamesLoop_lookup:
  "lookup_bool (s3NamesLoop ss m) n \<longleftrightarrow> lookup_bool m n \<or> n \<in> Name ` set ss"
  by (induction ss arbitrary: m) auto

lemma toUploadLoop_filter:
  "toUploadLoop d names ss toUpload =
     toUpload @ filter (\<lambda>s. lookup_bool d (Name s) \<and> \<not> lookup_bool names (Name s)) ss"
  by (induction ss arbitrary: toUpload) simp_all

text \<open>
  C7. \<^verbatim>\<open>uploadMissingSnapshots\<close> selects for upload exactly the local records whose name
  the verdict keeps and whose name is not the name of any remote record. The verdict is
  the merged one with the unified flag and the local one without it; in the second case
  the evaluator has sorted the local slice, so the selection is made in that order.
  Records marked delete and records whose name exists remotely are never selected.
\<close>

theorem upload_selects_kept_and_missing:
  assumes "sort_Slice_post newer localSnapshots (sortSlice newer localSnapshots)"
  shows "uploadMissingSnapshots sortSlice rng policy now unified None
           (Inr localSnapshots) (Inr s3Snapshots)
         = Inr (filter
              (\<lambda>s. lookup_bool
                     (if unified
                      then GetUnifiedRetentionStatus sortSlice rng policy now localSnapshots s3Snapshots
                      else snd (GetRetentionStatus sortSlice policy now localSnapshots)) (Name s)
                   \<and> Name s \<notin> Name ` set s3Snapshots)
              (if unified then localSnapshots else sortSlice newer localSnapshots))
    \<and> mset (filter
              (\<lambda>s. lookup_bool
                     (if unified
                      then GetUnifiedRetentionStatus sortSlice rng policy now localSnapshots s3Snapshots
                      else snd (GetRetentionStatus sortSlice policy now localSnapshots)) (Name s)
                   \<and> Name s \<notin> Name ` set s3Snapshots)
              (if unified then localSnapshots else sortSlice newer localSnapshots))
        = filter_mset
              (\<lambda>s. lookup_bool
                     (if unified
                      then GetUnifiedRetentionStatus sortSlice rng policy now localSnapshots s3Snapshots
                      else snd (GetRetentionStatus sortSlice policy now localSnapshots)) (Name s)
                   \<and> Name s \<notin> Name ` set s3Snapshots)
              (mset localSnapshots)"
proof
  have fst_eq: "fst (GetRetentionStatus sortSlice policy now localSnapshots) = sortSlice newer localSnapshots"
    by (simp add: GetRetentionStatus_def determineSnapshotsToKeep_def Let_def)
  show "uploadMissingSnapshots sortSlice rng policy now unified None
           (Inr localSnapshots) (Inr s3Snapshots)
         = Inr (filter
              (\<lambda>s. lookup_bool
                     (if unified
                      then GetUnifiedRetentionStatus sortSlice rng policy now localSnapshots s3Snapshots
                      else snd (GetRetentionStatus sortSlice policy now localSnapshots)) (Name s)
                   \<and> Name s \<notin> Name ` set s3Snapshots)
              (if unified then localSnapshots else sortSlice newer localSnapshots))"
    by (cases unified)
      (simp_all add: uploadMissingSnapshots_def Let_def toUploadLoop_filter s3NamesLoop_lookup
        split_beta fst_eq)
next
  from assms have "mset (sortSlice newer localSnapshots) = mset localSnapshots"
    by (simp add: sort_Slice_post_newer)
  then have "mset (if unified then localSnapshots else sortSlice newer localSnapshots) = mset localSnapshots"
    by simp
  then show "mset (filter
              (\<lambda>s. lookup_bool
                     (if unified
                      then GetUnifiedRetentionStatus sortSlice rng policy now localSnapshots s3Snapshots
                      else snd (GetRetentionStatus sortSlice policy now localSnapshots)) (Name s)
                   \<and> Name s \<notin> Name ` set s3Snapshots)
              (if unified then localSnapshots else sortSlice newer localSnapshots))
        = filter_mset
              (\<lambda>s. lookup_bool
                     (if unified
                      then GetUnifiedRetentionStatus sortSlice rng policy now localSnapshots s3Snapshots
                      else snd (GetRetentionStatus sortSlice policy now localSnapshots)) (Name s)
                   \<and> Name s \<notin> Name ` set s3Snapshots)
              (mset localSnapshots)"
    by (simp only: mset_filter)
qed

text \<open>
  A run with \<^verbatim>\<open>KeepLast\<close> = 2: of the local records \<open>a.db\<close> (newest), \<open>b.db\<close> and \<open>c.db\<close>
  (oldest) the verdict keeps \<open>a.db\<close> and \<open>b.db\<close>; \<open>b.db\<close> exists remotely, so only \<open>a.db\<close> is
  selected.
\<close>

theorem upload_selects_kept_and_missing_witness:
  "sort_Slice_post newer
      [localSnap ''c.db'' hourNs, localSnap ''a.db'' (9 * hourNs), localSnap ''b.db'' (5 * hourNs)]
      (sortStable newer
        [localSnap ''c.db'' hourNs, localSnap ''a.db'' (9 * hourNs), localSnap ''b.db'' (5 * hourNs)])
   \<and> uploadMissingSnapshots sortStable (map snd) (policyOf 2 0 0 0 0 0) (10 * hourNs) False None
        (Inr [localSnap ''c.db'' hourNs, localSnap ''a.db'' (9 * hourNs),
              localSnap ''b.db'' (5 * hourNs)])
        (Inr [s3Snap ''b.db'' (5 * hourNs)])
      = Inr [localSnap ''a.db'' (9 * hourNs)]"
proof -
  have h: "sort_Slice_post newer
      [localSnap ''c.db'' hourNs, localSnap ''a.db'' (9 * hourNs), localSnap ''b.db'' (5 * hourNs)]
      (sortStable newer
        [localSnap ''c.db'' hourNs, localSnap ''a.db'' (9 * hourNs), localSnap ''b.db'' (5 * hourNs)])"
    by (rule sortStable_post [OF newer_strictWeakOrdering])
  have v: "snd (GetRetentionStatus sortStable (policyOf 2 0 0 0 0 0) (10 * hourNs)
      [localSnap ''c.db'' hourNs, localSnap ''a.db'' (9 * hourNs), localSnap ''b.db'' (5 * hourNs)])
      = [''a.db'' \<mapsto> True, ''b.db'' \<mapsto> True]"
    by (simp add: GetRetentionStatus_def determineSnapshotsToKeep_def newer_def After_def
        policyOf_def localSnap_def hourNs_def keepWithin_def Sub_def Hour_def Let_def)
  have s: "sortStable newer
      [localSnap ''c.db'' hourNs, localSnap ''a.db'' (9 * hourNs), localSnap ''b.db'' (5 * hourNs)]
    = [localSnap ''a.db'' (9 * hourNs), localSnap ''b.db'' (5 * hourNs), localSnap ''c.db'' hourNs]"
    by (simp add: newer_def After_def localSnap_def hourNs_def)
  note c = upload_selects_kept_and_missing [where sortSlice = sortStable and rng = "map snd"
      and policy = "policyOf 2 0 0 0 0 0" and now = "10 * hourNs" and unified = False
      and s3Snapshots = "[s3Snap ''b.db'' (5 * hourNs)]"
      and localSnapshots = "[localSnap ''c.db'' hourNs, localSnap ''a.db'' (9 * hourNs),
        localSnap ''b.db'' (5 * hourNs)]", OF h, THEN conjunct1]
  have "uploadMissingSnapshots sortStable (map snd) (policyOf 2 0 0 0 0 0) (10 * hourNs) False None
        (Inr [localSnap ''c.db'' hourNs, localSnap ''a.db'' (9 * hourNs),
              localSnap ''b.db'' (5 * hourNs)])
        (Inr [s3Snap ''b.db'' (5 * hourNs)])
      = Inr [localSnap ''a.db'' (9 * hourNs)]"
    unfolding c by (simp add: v s) (simp add: localSnap_def s3Snap_def lookup_bool_def)
  with h show ?thesis by (intro conjI)
qed

section \<open>The evaluator reorders its argument\<close>

lemma uploadMissing_local_verdict:
  "uploadMissingSnapshots sortSlice rng policy now False None
       (Inr localSnapshots) (Inr s3Snapshots)
     = Inr (filter
          (\<lambda>s. lookup_bool (snd (GetRetentionStatus sortSlice policy now localSnapshots)) (Name s)
               \<and> Name s \<notin> Name ` set s3Snapshots)
          (sortSlice newer localSnapshots))"
proof -
  have "fst (GetRetentionStatus sortSlice policy now localSnapshots)
      = sortSlice newer localSnapshots"
    by (simp add: GetRetentionStatus_def determineSnapshotsToKeep_def Let_def)
  then show ?thesis
    by (simp add: uploadMissingSnapshots_def Let_def toUploadLoop_filter s3NamesLoop_lookup
        split_beta)
qed

text \<open>
  C10. \<^verbatim>\<open>determineSnapshotsToKeep\<close> (and \<^verbatim>\<open>GetRetentionStatus\<close>, which passes its
  argument on) hands the slice it is given to \<^verbatim>\<open>sort.Slice\<close>, with the comparison
  "modified after", and the sort works in place. Whatever sort the library provides,
  as long as it keeps the library's promise: after the call the slice holds the same
  records as before, none of them changed, in newest-first order of \<^verbatim>\<open>ModTime\<close>; so
  whenever the slice was not in that order already, its element order after the call
  differs from the one before. A caller sees it: without the unified flag
  \<^verbatim>\<open>uploadMissingSnapshots\<close> selects the uploads from its local listing after the
  evaluation, and they come out newest first.
\<close>

theorem evaluator_sorts_input_in_place:
  assumes "sort_Slice_contract sortSlice"
  shows "mset (fst (determineSnapshotsToKeep sortSlice policy now snapshots)) = mset snapshots
    \<and> sorted_wrt (\<lambda>a b. ModTime b \<le> ModTime a)
         (fst (determineSnapshotsToKeep sortSlice policy now snapshots))
    \<and> fst (GetRetentionStatus sortSlice policy now snapshots)
         = fst (determineSnapshotsToKeep sortSlice policy now snapshots)
    \<and> (\<not> sorted_wrt (\<lambda>a b. ModTime b \<le> ModTime a) snapshots
         \<longrightarrow> fst (determineSnapshotsToKeep sortSlice policy now snapshots) \<noteq> snapshots)
    \<and> (\<exists>toUpload.
          uploadMissingSnapshots sortSlice rng policy now False None
            (Inr snapshots) (Inr s3Snapshots) = Inr toUpload
          \<and> sorted_wrt (\<lambda>a b. ModTime b \<le> ModTime a) toUpload)"
proof -
  have ordering: "strictWeakOrdering newer"
    by (rule newer_strictWeakOrdering)
  with assms have post: "sort_Slice_post newer snapshots (sortSlice newer snapshots)"
    unfolding sort_Slice_contract_def by blast
  have eq: "fst (determineSnapshotsToKeep sortSlice policy now snapshots)
      = sortSlice newer snapshots"
    by (simp add: determineSnapshotsToKeep_def Let_def)
  from post have m: "mset (sortSlice newer snapshots) = mset snapshots"
    and s: "sorted_wrt (\<lambda>a b. ModTime b \<le> ModTime a) (sortSlice newer snapshots)"
    by (simp_all add: sort_Slice_post_newer)
  from s have changed: "\<not> sorted_wrt (\<lambda>a b. ModTime b \<le> ModTime a) snapshots
      \<Longrightarrow> sortSlice newer snapshots \<noteq> snapshots"
    by auto
  from s have "sorted_wrt (\<lambda>a b. ModTime b \<le> ModTime a)
      (filter
        (\<lambda>s. lookup_bool (snd (GetRetentionStatus sortSlice policy now snapshots)) (Name s)
             \<and> Name s \<notin> Name ` set s3Snapshots)
        (sortSlice newer snapshots))"
    by (rule sorted_wrt_filter)
  then have caller: "\<exists>toUpload.
          uploadMissingSnapshots sortSlice rng policy now False None
            (Inr snapshots) (Inr s3Snapshots) = Inr toUpload
          \<and> sorted_wrt (\<lambda>a b. ModTime b \<le> ModTime a) toUpload"
    unfolding uploadMissing_local_verdict by blast
  from m s changed caller show ?thesis
    by (simp add: eq GetRetentionStatus_def)
qed

theorem evaluator_sorts_input_in_place_witness:
  "sort_Slice_contract sortTiesReversed
   \<and> \<not> sorted_wrt (\<lambda>a b. ModTime b \<le> ModTime a)
        [localSnap ''a.db'' hourNs, localSnap ''b.db'' (4 * hourNs)]
   \<and> mset (fst (determineSnapshotsToKeep sortTiesReversed zeroPolicy (5 * hourNs)
        [localSnap ''a.db'' hourNs, localSnap ''b.db'' (4 * hourNs)]))
       = mset [localSnap ''a.db'' hourNs, localSnap ''b.db'' (4 * hourNs)]
   \<and> sorted_wrt (\<lambda>a b. ModTime b \<le> ModTime a)
        (fst (determineSnapshotsToKeep sortTiesReversed zeroPolicy (5 * hourNs)
          [localSnap ''a.db'' hourNs, localSnap ''b.db'' (4 * hourNs)]))
   \<and> fst (determineSnapshotsToKeep sortTiesReversed zeroPolicy (5 * hourNs)
        [localSnap ''a.db'' hourNs, localSnap ''b.db'' (4 * hourNs)])
       \<noteq> [localSnap ''a.db'' hourNs, localSnap ''b.db'' (4 * hourNs)]
   \<and> fst (determineSnapshotsToKeep sortTiesReversed zeroPolicy (5 * hourNs)
        [localSnap ''a.db'' hourNs, localSnap ''b.db'' (4 * hourNs)])
       = [localSnap ''b.db'' (4 * hourNs), localSnap ''a.db'' hourNs]
   \<and> uploadMissingSnapshots sortTiesReversed (map snd) (policyOf 2 0 0 0 0 0) (5 * hourNs)
        False None (Inr [localSnap ''a.db'' hourNs, localSnap ''b.db'' (4 * hourNs)]) (Inr [])
       = Inr [localSnap ''b.db'' (4 * hourNs), localSnap ''a.db'' hourNs]"
proof -
  have h: "sort_Slice_contract sortTiesReversed"
    by (rule sortTiesReversed_contract)
  have u: "\<not> sorted_wrt (\<lambda>a b. ModTime b \<le> ModTime a)
        [localSnap ''a.db'' hourNs, localSnap ''b.db'' (4 * hourNs)]"
    by (simp add: localSnap_def hourNs_def)
  have v: "fst (determineSnapshotsToKeep sortTiesReversed zeroPolicy (5 * hourNs)
        [localSnap ''a.db'' hourNs, localSnap ''b.db'' (4 * hourNs)])
       = [localSnap ''b.db'' (4 * hourNs), localSnap ''a.db'' hourNs]"
    by (simp add: determineSnapshotsToKeep_def sortTiesReversed_def newer_def After_def
        localSnap_def hourNs_def Let_def)
  note c = evaluator_sorts_input_in_place [OF h, of zeroPolicy "5 * hourNs"
      "[localSnap ''a.db'' hourNs, localSnap ''b.db'' (4 * hourNs)]" "map snd" "[]"]
  from c have e: "mset (fst (determineSnapshotsToKeep sortTiesReversed zeroPolicy (5 * hourNs)
        [localSnap ''a.db'' hourNs, localSnap ''b.db'' (4 * hourNs)]))
       = mset [localSnap ''a.db'' hourNs, localSnap ''b.db'' (4 * hourNs)]"
    by (rule conjunct1)
  from c have o: "sorted_wrt (\<lambda>a b. ModTime b \<le> ModTime a)
        (fst (determineSnapshotsToKeep sortTiesReversed zeroPolicy (5 * hourNs)
          [localSnap ''a.db'' hourNs, localSnap ''b.db'' (4 * hourNs)]))"
    by (rule conjunct2 [THEN conjunct1])
  from c [THEN conjunct2, THEN conjunct2, THEN conjunct2, THEN conjunct1] u
  have d: "fst (determineSnapshotsToKeep sortTiesReversed zeroPolicy (5 * hourNs)
        [localSnap ''a.db'' hourNs, localSnap ''b.db'' (4 * hourNs)])
       \<noteq> [localSnap ''a.db'' hourNs, localSnap ''b.db'' (4 * hourNs)]"
    by (rule mp)
  have w: "uploadMissingSnapshots sortTiesReversed (map snd) (policyOf 2 0 0 0 0 0) (5 * hourNs)
        False None (Inr [localSnap ''a.db'' hourNs, localSnap ''b.db'' (4 * hourNs)]) (Inr [])
       = Inr [localSnap ''b.db'' (4 * hourNs), localSnap ''a.db'' hourNs]"
    by (simp add: uploadMissingSnapshots_def GetRetentionStatus_def determineSnapshotsToKeep_def
        sortTiesReversed_def newer_def After_def policyOf_def localSnap_def hourNs_def
        keepWithin_def Sub_def Hour_def Let_def lookup_bool_def)
  from h u e o d v w show ?thesis by (intro conjI)
qed

section \<open>Candidate names\<close>

lemma HasSuffix_last:
  assumes "HasSuffix s suffix" and "suffix \<noteq> []"
  shows "last s = last suffix"
proof -
  from assms(1) have "drop (length s - length suffix) s = suffix"
    by (simp add: HasSuffix_def)
  with assms(2) show ?thesis
    by (metis last_drop drop_eq_Nil not_le)
qed

lemma IsCompressed_iff:
  "IsCompressed filename \<longleftrightarrow>
     HasSuffix filename ''.gz'' \<or> HasSuffix filename ''.bz2'' \<or> HasSuffix filename ''.lz4''
       \<or> HasSuffix filename ''.zst''"
  by (simp add: IsCompressed_def GetCompressionAlgorithmFromExt_def compressionExts_def)

lemma db_not_compressed:
  assumes "HasSuffix filename ''.db''"
  shows "\<not> IsCompressed filename"
proof -
  from assms have "last filename = CHR ''b''"
    using HasSuffix_last [of filename "''.db''"] by simp
  then have "\<not> HasSuffix filename ''.gz''" "\<not> HasSuffix filename ''.bz2''"
    "\<not> HasSuffix filename ''.lz4''" "\<not> HasSuffix filename ''.zst''"
    using HasSuffix_last [of filename "''.gz''"] HasSuffix_last [of filename "''.bz2''"]
      HasSuffix_last [of filename "''.lz4''"] HasSuffix_last [of filename "''.zst''"]
    by auto
  then show ?thesis by (simp add: IsCompressed_iff)
qed

text \<open>The visiting order of the extension table does not matter: the four suffixes end in
  different characters, so at most one of them is a suffix of a given name.\<close>

lemma algFromExtLoop_no_match:
  "(\<forall>p \<in> set tbl. \<not> (snd p \<noteq> [] \<and> HasSuffix filename (snd p))) \<Longrightarrow>
     algFromExtLoop tbl filename = ''none''"
  by (induction tbl filename rule: algFromExtLoop.induct) auto

lemma algFromExtLoop_match:
  "(a, e) \<in> set tbl \<Longrightarrow> e \<noteq> [] \<Longrightarrow> HasSuffix filename e \<Longrightarrow>
     (\<forall>p \<in> set tbl. snd p \<noteq> [] \<and> HasSuffix filename (snd p) \<longrightarrow> fst p = a) \<Longrightarrow>
     algFromExtLoop tbl filename = a"
  by (induction tbl filename rule: algFromExtLoop.induct) auto

lemma algFromExtLoop_order:
  assumes "set tbl = set compressionExts"
  shows "algFromExtLoop tbl filename = algFromExtLoop compressionExts filename"
proof -
  have tbl: "set tbl = {(''none'', ''''), (''gzip'', ''.gz''), (''bzip2'', ''.bz2''),
      (''lz4'', ''.lz4''), (''zstd'', ''.zst'')}"
    using assms by (simp add: compressionExts_def)
  have l: "HasSuffix filename ''.gz'' \<Longrightarrow> last filename = CHR ''z''"
    "HasSuffix filename ''.bz2'' \<Longrightarrow> last filename = CHR ''2''"
    "HasSuffix filename ''.lz4'' \<Longrightarrow> last filename = CHR ''4''"
    "HasSuffix filename ''.zst'' \<Longrightarrow> last filename = CHR ''t''"
    using HasSuffix_last [of filename "''.gz''"] HasSuffix_last [of filename "''.bz2''"]
      HasSuffix_last [of filename "''.lz4''"] HasSuffix_last [of filename "''.zst''"]
    by simp_all
  consider (gz) "HasSuffix filename ''.gz''" | (bz) "HasSuffix filename ''.bz2''"
    | (lz) "HasSuffix filename ''.lz4''" | (zs) "HasSuffix filename ''.zst''"
    | (none) "\<not> HasSuffix filename ''.gz''" "\<not> HasSuffix filename ''.bz2''"
        "\<not> HasSuffix filename ''.lz4''" "\<not> HasSuffix filename ''.zst''"
    by blast
  then show ?thesis
  proof cases
    case gz
    with l have o: "\<not> HasSuffix filename ''.bz2''" "\<not> HasSuffix filename ''.lz4''"
      "\<not> HasSuffix filename ''.zst''" by auto
    have "algFromExtLoop tbl filename = ''gzip''"
      by (rule algFromExtLoop_match [of _ "''.gz''"]) (use gz o tbl in auto)
    with gz show ?thesis
      by (simp add: compressionExts_def)
  next
    case bz
    with l have o: "\<not> HasSuffix filename ''.gz''" "\<not> HasSuffix filename ''.lz4''"
      "\<not> HasSuffix filename ''.zst''" by auto
    have "algFromExtLoop tbl filename = ''bzip2''"
      by (rule algFromExtLoop_match [of _ "''.bz2''"]) (use bz o tbl in auto)
    with bz o show ?thesis
      by (simp add: compressionExts_def)
  next
    case lz
    with l have o: "\<not> HasSuffix filename ''.gz''" "\<not> HasSuffix filename ''.bz2''"
      "\<not> HasSuffix filename ''.zst''" by auto
    have "algFromExtLoop tbl filename = ''lz4''"
      by (rule algFromExtLoop_match [of _ "''.lz4''"]) (use lz o tbl in auto)
    with lz o show ?thesis
      by (simp add: compressionExts_def)
  next
    case zs
    with l have o: "\<not> HasSuffix filename ''.gz''" "\<not> HasSuffix filename ''.bz2''"
      "\<not> HasSuffix filename ''.lz4''" by auto
    have "algFromExtLoop tbl filename = ''zstd''"
      by (rule algFromExtLoop_match [of _ "''.zst''"]) (use zs o tbl in auto)
    with zs o show ?thesis
      by (simp add: compressionExts_def)
  next
    case none
    have "algFromExtLoop tbl filename = ''none''"
      by (rule algFromExtLoop_no_match) (use none tbl in auto)
    with none show ?thesis
      by (simp add: compressionExts_def)
  qed
qed

lemma candidates_of_db:
  "candidatesLoop base [''zstd'', ''gzip'', ''lz4'', ''bzip2''] [] =
     [base @ ''.zst'', base @ ''.gz'', base @ ''.lz4'', base @ ''.bz2'']"
  by (simp add: GetCompressionExt_def compressionExts_def)

section \<open>Probing the store\<close>

lemma resolveLoop_found:
  "(\<forall>p \<in> set pre. existsFn p = Inr False) \<Longrightarrow> existsFn c = Inr True \<Longrightarrow>
     resolveLoop existsFn key (pre @ c # post) = (c, True, None)"
  by (induction pre) simp_all

lemma resolveLoop_none:
  "(\<forall>p \<in> set cs. existsFn p = Inr False) \<Longrightarrow> resolveLoop existsFn key cs = (key, False, None)"
  by (induction cs) simp_all

lemma resolveLoop_error:
  "(\<forall>p \<in> set pre. existsFn p = Inr False) \<Longrightarrow> existsFn c = Inl err \<Longrightarrow>
     resolveLoop existsFn key (pre @ c # post) =
       ('''', False, Some (''failed to check existence of '' @ c @ '': '' @ err))"
  by (induction pre) simp_all

text \<open>
  C6. A name that ends in \<open>.db\<close> (it then carries no compressed suffix) resolves to its
  four compressed variants in the order zstd, gzip, lz4, bzip2, the first being the suffix
  of the default algorithm, followed by the name itself. A name that carries a compressed
  suffix, and any other name, resolves to itself alone. \<^verbatim>\<open>ResolveCompressedKey\<close> probes
  the candidates in that order and returns the first one whose existence check is true;
  for a \<open>.db\<close> name whose \<open>.zst\<close> variant exists that is the \<open>.zst\<close> variant, whatever else
  exists.
\<close>

theorem candidates_in_priority_order:
  "(HasSuffix name ''.db'' \<longrightarrow>
      \<not> IsCompressed name
      \<and> ResolveCompressedFilename name
          = [name @ ''.zst'', name @ ''.gz'', name @ ''.lz4'', name @ ''.bz2'', name]
      \<and> hd (ResolveCompressedFilename name) = name @ GetCompressionExt defaultCompression)
   \<and> (IsCompressed name \<longrightarrow> ResolveCompressedFilename name = [name])
   \<and> (\<not> IsCompressed name \<and> \<not> HasSuffix name ''.db'' \<longrightarrow> ResolveCompressedFilename name = [name])
   \<and> (\<forall>pre c post.
        ResolveCompressedFilename name = pre @ c # post
          \<and> (\<forall>p \<in> set pre. existsFn p = Inr False) \<and> existsFn c = Inr True
        \<longrightarrow> ResolveCompressedKey existsFn name = (c, True, None))
   \<and> (HasSuffix name ''.db'' \<and> existsFn (name @ ''.zst'') = Inr True
        \<longrightarrow> ResolveCompressedKey existsFn name = (name @ ''.zst'', True, None))"
proof (intro conjI allI impI)
  assume db: "HasSuffix name ''.db''"
  then show nc: "\<not> IsCompressed name" by (rule db_not_compressed)
  with db show cands: "ResolveCompressedFilename name
          = [name @ ''.zst'', name @ ''.gz'', name @ ''.lz4'', name @ ''.bz2'', name]"
    unfolding ResolveCompressedFilename_def candidates_of_db by simp
  then show "hd (ResolveCompressedFilename name) = name @ GetCompressionExt defaultCompression"
    by (simp add: GetCompressionExt_def compressionExts_def defaultCompression_def)
next
  assume "IsCompressed name"
  then show "ResolveCompressedFilename name = [name]"
    by (simp add: ResolveCompressedFilename_def)
next
  assume "\<not> IsCompressed name \<and> \<not> HasSuffix name ''.db''"
  then show "ResolveCompressedFilename name = [name]"
    by (simp add: ResolveCompressedFilename_def)
next
  fix pre c post
  assume "ResolveCompressedFilename name = pre @ c # post
          \<and> (\<forall>p \<in> set pre. existsFn p = Inr False) \<and> existsFn c = Inr True"
  then show "ResolveCompressedKey existsFn name = (c, True, None)"
    by (simp add: ResolveCompressedKey_def resolveLoop_found)
next
  assume a: "HasSuffix name ''.db'' \<and> existsFn (name @ ''.zst'') = Inr True"
  then have "\<not> IsCompressed name" by (simp add: db_not_compressed)
  with a show "ResolveCompressedKey existsFn name = (name @ ''.zst'', True, None)"
    unfolding ResolveCompressedKey_def ResolveCompressedFilename_def candidates_of_db by simp
qed

theorem candidates_in_priority_order_witness:
  "HasSuffix ''snap.db'' ''.db''
   \<and> storeOf [''snap.db.bz2'', ''snap.db.gz'', ''snap.db.lz4'', ''snap.db.zst'', ''snap.db'']
        (''snap.db'' @ ''.zst'') = Inr True
   \<and> ResolveCompressedFilename ''snap.db''
       = [''snap.db.zst'', ''snap.db.gz'', ''snap.db.lz4'', ''snap.db.bz2'', ''snap.db'']
   \<and> ResolveCompressedKey
        (storeOf [''snap.db.bz2'', ''snap.db.gz'', ''snap.db.lz4'', ''snap.db.zst'', ''snap.db''])
        ''snap.db'' = (''snap.db.zst'', True, None)
   \<and> ResolveCompressedKey (storeOf [''snap.db.bz2'', ''snap.db'']) ''snap.db''
       = (''snap.db.bz2'', True, None)
   \<and> IsCompressed ''snap.db.gz''
   \<and> ResolveCompressedFilename ''snap.db.gz'' = [''snap.db.gz'']
   \<and> ResolveCompressedFilename ''snapshot-1'' = [''snapshot-1'']"
proof -
  have h: "HasSuffix ''snap.db'' ''.db''"
    by (simp add: HasSuffix_def)
  have g: "IsCompressed ''snap.db.gz''"
    by (simp add: IsCompressed_iff HasSuffix_def)
  have o: "\<not> IsCompressed ''snapshot-1'' \<and> \<not> HasSuffix ''snapshot-1'' ''.db''"
    by (simp add: IsCompressed_iff HasSuffix_def)
  have e: "storeOf [''snap.db.bz2'', ''snap.db.gz'', ''snap.db.lz4'', ''snap.db.zst'', ''snap.db'']
        (''snap.db'' @ ''.zst'') = Inr True"
    by (simp add: storeOf_def)
  note c = candidates_in_priority_order [of "''snap.db''"
      "storeOf [''snap.db.bz2'', ''snap.db.gz'', ''snap.db.lz4'', ''snap.db.zst'', ''snap.db'']"]
  from c h have c1: "ResolveCompressedFilename ''snap.db''
       = [''snap.db.zst'', ''snap.db.gz'', ''snap.db.lz4'', ''snap.db.bz2'', ''snap.db'']"
    by simp
  from c h e have c2: "ResolveCompressedKey
        (storeOf [''snap.db.bz2'', ''snap.db.gz'', ''snap.db.lz4'', ''snap.db.zst'', ''snap.db''])
        ''snap.db'' = (''snap.db.zst'', True, None)"
    by simp
  have p: "ResolveCompressedFilename ''snap.db''
        = [''snap.db.zst'', ''snap.db.gz'', ''snap.db.lz4''] @ ''snap.db.bz2'' # [''snap.db'']
      \<and> (\<forall>p \<in> set [''snap.db.zst'', ''snap.db.gz'', ''snap.db.lz4''].
            storeOf [''snap.db.bz2'', ''snap.db''] p = Inr False)
      \<and> storeOf [''snap.db.bz2'', ''snap.db''] ''snap.db.bz2'' = Inr True"
    using c1 by (simp add: storeOf_def)
  from candidates_in_priority_order [of "''snap.db''" "storeOf [''snap.db.bz2'', ''snap.db'']"] p
  have c5: "ResolveCompressedKey (storeOf [''snap.db.bz2'', ''snap.db'']) ''snap.db''
       = (''snap.db.bz2'', True, None)"
    by blast
  from candidates_in_priority_order [of "''snap.db.gz''" "storeOf []"] g
  have c3: "ResolveCompressedFilename ''snap.db.gz'' = [''snap.db.gz'']"
    by blast
  from candidates_in_priority_order [of "''snapshot-1''" "storeOf []"] o
  have c4: "ResolveCompressedFilename ''snapshot-1'' = [''snapshot-1'']"
    by blast
  from h e c1 c2 c5 g c3 c4 show ?thesis by (intro conjI)
qed

section \<open>Resolution failures\<close>

text \<open>
  C9. When no candidate of the requested key exists, \<^verbatim>\<open>ResolveCompressedKey\<close> returns the
  requested key itself with \<^verbatim>\<open>found = false\<close> and no error, and \<^verbatim>\<open>downloadSnapshot\<close>
  fails with a message that names the requested key and says that compressed and
  uncompressed versions were checked. When the existence check of a candidate fails
  (every earlier candidate being absent), that error is returned, wrapped, by
  \<^verbatim>\<open>ResolveCompressedKey\<close> and by \<^verbatim>\<open>downloadSnapshot\<close>; it is not turned into "not found".
\<close>

theorem resolution_not_found_and_errors:
  "((\<forall>c \<in> set (ResolveCompressedFilename key). existsFn c = Inr False) \<longrightarrow>
      ResolveCompressedKey existsFn key = (key, False, None)
      \<and> downloadSnapshot None existsFn fetch key
          = Inl (''snapshot not found in S3: '' @ key
                 @ '' (checked compressed and uncompressed versions)''))
   \<and> (\<forall>pre c post err.
        ResolveCompressedFilename key = pre @ c # post
          \<and> (\<forall>p \<in> set pre. existsFn p = Inr False) \<and> existsFn c = Inl err
        \<longrightarrow> ResolveCompressedKey existsFn key
              = ('''', False, Some (''failed to check existence of '' @ c @ '': '' @ err))
          \<and> downloadSnapshot None existsFn fetch key
              = Inl (''failed to resolve compressed snapshot: ''
                     @ ''failed to check existence of '' @ c @ '': '' @ err))"
proof (intro conjI allI impI)
  assume "\<forall>c \<in> set (ResolveCompressedFilename key). existsFn c = Inr False"
  then show r: "ResolveCompressedKey existsFn key = (key, False, None)"
    by (simp add: ResolveCompressedKey_def resolveLoop_none)
  then show "downloadSnapshot None existsFn fetch key
          = Inl (''snapshot not found in S3: '' @ key
                 @ '' (checked compressed and uncompressed versions)'')"
    by (simp add: downloadSnapshot_def)
next
  fix pre c post err
  assume "ResolveCompressedFilename key = pre @ c # post
          \<and> (\<forall>p \<in> set pre. existsFn p = Inr False) \<and> existsFn c = Inl err"
  then show r: "ResolveCompressedKey existsFn key
              = ('''', False, Some (''failed to check existence of '' @ c @ '': '' @ err))"
    by (simp add: ResolveCompressedKey_def resolveLoop_error)
  then show "downloadSnapshot None existsFn fetch key
              = Inl (''failed to resolve compressed snapshot: ''
                     @ ''failed to check existence of '' @ c @ '': '' @ err)"
    by (simp add: downloadSnapshot_def)
qed

theorem resolution_not_found_and_errors_witness:
  "map (storeOf [''other.db.zst'']) (ResolveCompressedFilename ''snap.db'')
       = [Inr False, Inr False, Inr False, Inr False, Inr False]
   \<and> ResolveCompressedKey (storeOf [''other.db.zst'']) ''snap.db'' = (''snap.db'', False, None)
   \<and> downloadSnapshot None (storeOf [''other.db.zst'']) Inr ''snap.db''
       = Inl ''snapshot not found in S3: snap.db (checked compressed and uncompressed versions)''
   \<and> failingOn ''snap.db.gz'' ''access denied'' ''snap.db.gz'' = Inl ''access denied''
   \<and> ResolveCompressedKey (failingOn ''snap.db.gz'' ''access denied'') ''snap.db''
       = ([], False, Some ''failed to check existence of snap.db.gz: access denied'')
   \<and> downloadSnapshot None (failingOn ''snap.db.gz'' ''access denied'') Inr ''snap.db''
       = Inl (''failed to resolve compressed snapshot: ''
              @ ''failed to check existence of snap.db.gz: access denied'')"
proof -
  have cands: "ResolveCompressedFilename ''snap.db''
      = [''snap.db.zst''] @ ''snap.db.gz'' # [''snap.db.lz4'', ''snap.db.bz2'', ''snap.db'']"
    unfolding ResolveCompressedFilename_def candidates_of_db
    by (simp add: IsCompressed_iff HasSuffix_def)
  have h: "\<forall>c \<in> set (ResolveCompressedFilename ''snap.db'').
      storeOf [''other.db.zst''] c = Inr False"
    unfolding cands by (simp add: storeOf_def)
  note c = resolution_not_found_and_errors [of "''snap.db''" "storeOf [''other.db.zst'']" Inr]
  from c h have c1: "ResolveCompressedKey (storeOf [''other.db.zst'']) ''snap.db''
      = (''snap.db'', False, None)"
    by blast
  from c h have "downloadSnapshot None (storeOf [''other.db.zst'']) Inr ''snap.db''
       = Inl (''snapshot not found in S3: '' @ ''snap.db''
              @ '' (checked compressed and uncompressed versions)'')"
    by blast
  then have c2: "downloadSnapshot None (storeOf [''other.db.zst'']) Inr ''snap.db''
       = Inl ''snapshot not found in S3: snap.db (checked compressed and uncompressed versions)''"
    by simp
  have f: "failingOn ''snap.db.gz'' ''access denied'' ''snap.db.gz'' = Inl ''access denied''"
    by (simp add: failingOn_def)
  have e: "ResolveCompressedFilename ''snap.db''
      = [''snap.db.zst''] @ ''snap.db.gz'' # [''snap.db.lz4'', ''snap.db.bz2'', ''snap.db'']
    \<and> (\<forall>p \<in> set [''snap.db.zst'']. failingOn ''snap.db.gz'' ''access denied'' p = Inr False)
    \<and> failingOn ''snap.db.gz'' ''access denied'' ''snap.db.gz'' = Inl ''access denied''"
    using cands by (simp add: failingOn_def)
  note d = resolution_not_found_and_errors [of "''snap.db''"
      "failingOn ''snap.db.gz'' ''access denied''" Inr]
  from d e have "ResolveCompressedKey (failingOn ''snap.db.gz'' ''access denied'') ''snap.db''
       = ([], False, Some (''failed to check existence of '' @ ''snap.db.gz'' @ '': ''
            @ ''access denied''))"
    by blast
  then have c3: "ResolveCompressedKey (failingOn ''snap.db.gz'' ''access denied'') ''snap.db''
       = ([], False, Some ''failed to check existence of snap.db.gz: access denied'')"
    by simp
  from d e have "downloadSnapshot None (failingOn ''snap.db.gz'' ''access denied'') Inr ''snap.db''
       = Inl (''failed to resolve compressed snapshot: ''
              @ ''failed to check existence of '' @ ''snap.db.gz'' @ '': '' @ ''access denied'')"
    by blast
  then have c4: "downloadSnapshot None (failingOn ''snap.db.gz'' ''access denied'') Inr ''snap.db''
       = Inl (''failed to resolve compressed snapshot: ''
              @ ''failed to check existence of snap.db.gz: access denied'')"
    by simp
  have m: "map (storeOf [''other.db.zst'']) (ResolveCompressedFilename ''snap.db'')
       = [Inr False, Inr False, Inr False, Inr False, Inr False]"
    unfolding cands by (simp add: storeOf_def)
  from m c1 c2 f c3 c4 show ?thesis by (intro conjI)
qed

end
